theory Spec2Isabelle
  imports Main
begin

section \<open>Shared vocabulary of the three extraction flows\<close>

text \<open>
  The development embeds \<^verbatim>\<open>src/page.ts\<close>: \<^verbatim>\<open>getPostUrls\<close>, \<^verbatim>\<open>getReviews\<close> and
  \<^verbatim>\<open>getPostComments\<close>. Every firing of a response observer and every cycle of the
  scroll driver is one step on an explicit state; the browser, the selectors and the
  network are inputs of those steps. A step runs to completion before the next one
  starts (the single logical thread of the specification, section 5).
\<close>

subsection \<open>Errors\<close>

text \<open>
  \<^verbatim>\<open>InfoError(message, {namespace, ...})\<close> keeps its message and its namespace;
  \<^verbatim>\<open>AbortError\<close> is the rejection of the idle-abort controller; \<^verbatim>\<open>TimeoutError\<close> is
  the browser error recognised by \<^verbatim>\<open>e.name === 'TimeoutError'\<close>; every other exception
  is an \<open>OtherError\<close>.
\<close>

datatype error =
    InfoError string string
  | AbortError
  | TimeoutError
  | OtherError string

subsection \<open>Strings\<close>

fun startsWith :: "string \<Rightarrow> string \<Rightarrow> bool" where
  "startsWith s [] = True"
| "startsWith [] (c # cs) = False"
| "startsWith (d # ds) (c # cs) = (d = c \<and> startsWith ds cs)"

text \<open>\<^verbatim>\<open>String.prototype.includes\<close>: the second string occurs somewhere in the first.\<close>

fun str_includes :: "string \<Rightarrow> string \<Rightarrow> bool" where
  "str_includes [] sub = (sub = [])"
| "str_includes (c # cs) sub = (startsWith (c # cs) sub \<or> str_includes cs sub)"

subsection \<open>The completion gate\<close>

text \<open>
  Modelled from the spec: \<^verbatim>\<open>deferred()\<close> of \<^verbatim>\<open>functions.ts\<close> is not among the sources.
  Section 4.1: a single-resolution signal with the terminal outcomes resolved and
  rejected; settling twice is a no-op, whichever settles first wins. The flag
  \<^verbatim>\<open>finish.resolved\<close> that the source reads says that the gate is settled.
\<close>

datatype gate = Pending | Resolved | Rejected error

definition resolved :: "gate \<Rightarrow> bool" where
  "resolved g = (g \<noteq> Pending)"

definition gate_resolve :: "gate \<Rightarrow> gate" where
  "gate_resolve g = (if g = Pending then Resolved else g)"

definition gate_reject :: "error \<Rightarrow> gate \<Rightarrow> gate" where
  "gate_reject e g = (if g = Pending then Rejected e else g)"

subsection \<open>The date window and the range counter\<close>

text \<open>
  Modelled from the spec: \<^verbatim>\<open>MinMaxDates\<close> and \<^verbatim>\<open>dateRangeItemCounter\<close> of
  \<^verbatim>\<open>functions.ts\<close> are not among the sources. Section 3: the window has inclusive
  bounds. Section 4.5: \<^verbatim>\<open>add\<close>, \<^verbatim>\<open>time\<close>, \<^verbatim>\<open>isOver\<close> and \<^verbatim>\<open>stats\<close>. The source calls
  \<^verbatim>\<open>counter.empty(!posts.length)\<close> next to \<^verbatim>\<open>counter.add(posts.length)\<close>; the spec
  describes the two together as \<^verbatim>\<open>add(n)\<close>, so \<open>counter_empty\<close> counts the empty batch
  and \<open>counter_add\<close> the call and the items. The threshold of \<^verbatim>\<open>isOver\<close> is a fixed
  constant the spec does not give: it is a parameter. Instants are integers
  (\<^verbatim>\<open>convertDate\<close> is an adapter outside the engine).
\<close>

record MinMaxDates =
  date_min :: int
  date_max :: int

definition compare :: "MinMaxDates \<Rightarrow> int \<Rightarrow> bool" where
  "compare w ts = (date_min w \<le> ts \<and> ts \<le> date_max w)"

record counter =
  calls :: nat
  emptyCalls :: nat
  totalSeen :: nat
  inRange :: nat
  overRangeStreak :: nat

definition counter_init :: counter where
  "counter_init = \<lparr>calls = 0, emptyCalls = 0, totalSeen = 0, inRange = 0, overRangeStreak = 0\<rparr>"

definition counter_empty :: "bool \<Rightarrow> counter \<Rightarrow> counter" where
  "counter_empty b c = (if b then c\<lparr>emptyCalls := emptyCalls c + 1\<rparr> else c)"

definition counter_add :: "nat \<Rightarrow> counter \<Rightarrow> counter" where
  "counter_add n c = c\<lparr>calls := calls c + 1, totalSeen := totalSeen c + n\<rparr>"

definition counter_time :: "MinMaxDates \<Rightarrow> int \<Rightarrow> counter \<Rightarrow> bool \<times> counter" where
  "counter_time w ts c =
     (if date_max w < ts then (False, c)
      else if date_min w \<le> ts then (True, c\<lparr>inRange := inRange c + 1, overRangeStreak := 0\<rparr>)
      else (False, c\<lparr>overRangeStreak := overRangeStreak c + 1\<rparr>))"

definition isOver :: "nat \<Rightarrow> counter \<Rightarrow> bool" where
  "isOver threshold c = (threshold < overRangeStreak c)"

text \<open>The failure heuristic the source writes as \<^verbatim>\<open>calls && empty > total\<close>.\<close>

definition neverLoaded :: "counter \<Rightarrow> bool" where
  "neverLoaded c = (calls c \<noteq> 0 \<and> totalSeen c < emptyCalls c)"

subsection \<open>Loops over the items of a batch\<close>

text \<open>
  A \<^verbatim>\<open>for ... of\<close> loop whose body may go on to the next item, \<^verbatim>\<open>break\<close>, \<^verbatim>\<open>return\<close>
  from the enclosing function, or throw.
\<close>

datatype flow = Continue | Break | Return | Throw error

fun for_each :: "('a \<Rightarrow> 's \<Rightarrow> 's \<times> flow) \<Rightarrow> 'a list \<Rightarrow> 's \<Rightarrow> 's \<times> flow" where
  "for_each body [] s = (s, Continue)"
| "for_each body (x # xs) s =
     (case body x s of
        (s', Continue) \<Rightarrow> for_each body xs s'
      | (s', fl) \<Rightarrow> (s', fl))"

subsection \<open>The idle-abort controller and the scroll driver\<close>

text \<open>
  Modelled from the spec: \<^verbatim>\<open>DelayAbort\<close> is an external package and \<^verbatim>\<open>scrollUntil\<close> of
  \<^verbatim>\<open>functions.ts\<close> is not among the sources. Sections 4.2 and 4.3: \<^verbatim>\<open>run\<close> races the
  completion gate and the scroll driver against the idle timer. The events of a call
  (observer firings and scroll cycles, in the order the browser delivers them) are a
  list; a step returns the new state and whether the scroll driver stops. The run
  ends when the gate is rejected (the run throws that error), when the gate is
  resolved or the driver stops (the run completes), and when no further event makes
  progress the timer fires: the end of the list is the abort.
\<close>

datatype run_result = Finished | Failed error | Aborted

fun run_loop :: "('s \<Rightarrow> gate) \<Rightarrow> ('e \<Rightarrow> 's \<Rightarrow> 's \<times> bool) \<Rightarrow> 'e list \<Rightarrow> 's \<Rightarrow> 's \<times> run_result" where
  "run_loop g step [] s = (s, Aborted)"
| "run_loop g step (ev # evs) s =
     (case step ev s of (s', stop) \<Rightarrow>
        (case g s' of
           Rejected e \<Rightarrow> (s', Failed e)
         | Resolved \<Rightarrow> (s', Finished)
         | Pending \<Rightarrow> if stop then (s', Finished) else run_loop g step evs s'))"

definition control_run :: "('s \<Rightarrow> gate) \<Rightarrow> ('e \<Rightarrow> 's \<Rightarrow> 's \<times> bool) \<Rightarrow> 'e list \<Rightarrow> 's \<Rightarrow> 's \<times> run_result" where
  "control_run g step evs s =
     (case g s of
        Rejected e \<Rightarrow> (s, Failed e)
      | Resolved \<Rightarrow> (s, Finished)
      | Pending \<Rightarrow> run_loop g step evs s)"

text \<open>What \<^verbatim>\<open>await control.run(...)\<close> throws: nothing, the rejection of the gate, or the abort.\<close>

definition thrown :: "run_result \<Rightarrow> error option" where
  "thrown r = (case r of Finished \<Rightarrow> None | Failed e \<Rightarrow> Some e | Aborted \<Rightarrow> Some AbortError)"

subsection \<open>Responses, the page and the request\<close>

text \<open>
  A response as the observers read it: \<^verbatim>\<open>res.url()\<close>, \<^verbatim>\<open>res.status()\<close>, whether the
  content type header includes \<^verbatim>\<open>json\<close>, and \<^verbatim>\<open>res.json()\<close> (\<open>None\<close> when it throws).
  Of a parsed body the observers read \<^verbatim>\<open>isError(json)\<close> (a helper of \<^verbatim>\<open>functions.ts\<close>,
  taken as a field) and \<^verbatim>\<open>data.feedback.display_comments\<close>.
\<close>

record node =
  node_id :: string
  created_time :: int
  author_name :: string
  author_url :: "string option"
  profile_picture_depth_0 :: "string option option"
  profile_picture_depth_1_legacy :: "string option"
  body_text :: "string option"
  node_url :: string

record display_comments =
  dc_count :: nat
  dc_edges :: "node option list"
  has_next_page :: "bool option"

record payload =
  isError :: bool
  feedback_display_comments :: "display_comments option"

record response =
  res_url :: string
  res_status :: nat
  res_json_header :: bool
  res_json :: "payload option"

datatype observer = PostsObserver | ReviewsObserver | CommentsObserver

record review =
  review_url :: "string option"
  review_date :: int
  review_text :: string

record comment =
  comment_date :: int
  comment_name :: string
  profileUrl :: "string option"
  profilePicture :: "string option"
  comment_text :: "string option"
  comment_url :: string

text \<open>
  The caller-owned part of the world: \<^verbatim>\<open>request.userData\<close> with the three resumable
  snapshots (\<open>None\<close> is \<^verbatim>\<open>undefined\<close>) and the response subscriptions of the page.
\<close>

record session =
  userData_urls :: "string list option"
  userData_reviews :: "(string \<times> review) list option"
  userData_comments :: "(string \<times> comment) list option"
  listeners :: "observer list"

definition page_on :: "observer \<Rightarrow> session \<Rightarrow> session" where
  "page_on h w = w\<lparr>listeners := listeners w @ [h]\<rparr>"

definition page_off :: "observer \<Rightarrow> session \<Rightarrow> session" where
  "page_off h w = w\<lparr>listeners := remove1 h (listeners w)\<rparr>"

text \<open>\<^verbatim>\<open>Set\<close> and \<^verbatim>\<open>Map\<close> keep insertion order; a key that is present keeps its place.\<close>

definition set_add :: "string \<Rightarrow> string list \<Rightarrow> string list" where
  "set_add x xs = (if x \<in> set xs then xs else xs @ [x])"

definition new_Set :: "string list \<Rightarrow> string list" where
  "new_Set xs = foldl (\<lambda>acc x. set_add x acc) [] xs"

definition map_has :: "(string \<times> 'v) list \<Rightarrow> string \<Rightarrow> bool" where
  "map_has m k = (k \<in> fst ` set m)"

fun map_set :: "string \<Rightarrow> 'v \<Rightarrow> (string \<times> 'v) list \<Rightarrow> (string \<times> 'v) list" where
  "map_set k v [] = [(k, v)]"
| "map_set k v ((k', v') # m) = (if k' = k then (k, v) # m else (k', v') # map_set k v m)"

definition new_Map :: "(string \<times> 'v) list \<Rightarrow> (string \<times> 'v) list" where
  "new_Map kvs = foldl (\<lambda>acc (k, v). map_set k v acc) [] kvs"

section \<open>Post discovery: \<^verbatim>\<open>getPostUrls\<close>\<close>

text \<open>
  A post as \<^verbatim>\<open>pageSelectors.posts\<close> delivers it. A string field that is empty and an
  optional field that is \<open>None\<close> are the falsy values of the source. The source reads
  \<^verbatim>\<open>page_insights[page_id]\<close>, an association list here.
\<close>

record insight =
  psn :: string
  publish_time :: "int option"

record ft_data =
  top_level_post_id :: string
  story_attachment_style :: string
  page_id :: string
  page_insights :: "(string \<times> insight) list option"

record post =
  isPinned :: bool
  post_url :: string
  ft :: "ft_data option"

text \<open>The result of \<^verbatim>\<open>storyFbToDesktopPermalink\<close>, a \<^verbatim>\<open>URL\<close> or \<^verbatim>\<open>null\<close>.\<close>

record parsed_url =
  href :: string
  pathname :: string

record queue_request =
  rq_url :: string
  rq_uniqueKey :: string

text \<open>
  The parameters of a call. The blacklist is a constant of \<^verbatim>\<open>constants.ts\<close>, the
  permalink function an adapter of \<^verbatim>\<open>functions.ts\<close>, the request queue a collaborator
  whose \<^verbatim>\<open>addRequest\<close> may throw: they are taken as parameters.
\<close>

record posts_cfg =
  pc_max :: nat
  pc_date :: MinMaxDates
  pc_username :: string
  pc_threshold :: nat
  PSN_POST_TYPE_BLACKLIST :: "string list"
  storyFbToDesktopPermalink :: "string \<Rightarrow> string \<Rightarrow> string \<Rightarrow> parsed_url option"
  addRequest :: "queue_request \<Rightarrow> error option"

record posts_state =
  urls :: "string list"
  p_finish :: gate
  p_counter :: counter
  p_rateLimitCount :: nat
  p_isReady :: bool
  stillLoading :: nat
  p_queue :: "queue_request list"
  p_sleeps :: "nat list"
  p_postpones :: nat

text \<open>The items the loop of \<^verbatim>\<open>getPosts\<close> skips with \<^verbatim>\<open>continue\<close>.\<close>

definition falsy_time :: "int option \<Rightarrow> bool" where
  "falsy_time t = (case t of None \<Rightarrow> True | Some n \<Rightarrow> n = 0)"

definition skipped :: "posts_cfg \<Rightarrow> post \<Rightarrow> bool" where
  "skipped cfg p =
     (case ft p of
        None \<Rightarrow> True
      | Some f \<Rightarrow>
          story_attachment_style f = ''scheduled_live_video_post''
          \<or> top_level_post_id f = []
          \<or> page_id f = []
          \<or> (case page_insights f of
                None \<Rightarrow> True
              | Some ins \<Rightarrow>
                  (case map_of ins (page_id f) of
                     None \<Rightarrow> True
                   | Some i \<Rightarrow> psn i = [] \<or> falsy_time (publish_time i)
                               \<or> psn i \<in> set (PSN_POST_TYPE_BLACKLIST cfg))))"

definition convertedDate :: "post \<Rightarrow> int" where
  "convertedDate p =
     (case ft p of
        None \<Rightarrow> 0
      | Some f \<Rightarrow>
          (case page_insights f of
             None \<Rightarrow> 0
           | Some ins \<Rightarrow>
               (case map_of ins (page_id f) of
                  None \<Rightarrow> 0
                | Some i \<Rightarrow> (case publish_time i of None \<Rightarrow> 0 | Some t \<Rightarrow> t))))"

definition postId :: "post \<Rightarrow> string" where
  "postId p = (case ft p of None \<Rightarrow> [] | Some f \<Rightarrow> top_level_post_id f)"

text \<open>One pass of the loop body of \<^verbatim>\<open>getPosts\<close> (lines 226 to 298).\<close>

definition getPosts_item :: "posts_cfg \<Rightarrow> post \<Rightarrow> posts_state \<Rightarrow> posts_state \<times> flow" where
  "getPosts_item cfg p s0 =
     (let s = s0\<lparr>p_postpones := p_postpones s0 + 1\<rparr> in
      if pc_max cfg \<le> length (urls s) \<or> isOver (pc_threshold cfg) (p_counter s) then
        (if neverLoaded (p_counter s)
         then (s\<lparr>p_finish := gate_reject (InfoError ''Failed to load posts'' ''getPostUrls'') (p_finish s)\<rparr>, Return)
         else (s\<lparr>p_finish := gate_resolve (p_finish s)\<rparr>, Return))
      else if skipped cfg p then (s, Continue)
      else
        (let d = convertedDate p;
             (inDateRange, c) =
               (if \<not> isPinned p then counter_time (pc_date cfg) d (p_counter s)
                else (compare (pc_date cfg) d, p_counter s));
             s1 = s\<lparr>p_counter := c\<rparr>
         in case storyFbToDesktopPermalink cfg (post_url p) (pc_username cfg) (postId p) of
              None \<Rightarrow> (s1, Continue)
            | Some parsed \<Rightarrow>
                if inDateRange \<and> href parsed \<notin> set (urls s1) then
                  (let s2 = s1\<lparr>urls := urls s1 @ [href parsed]\<rparr>;
                       rq = \<lparr>rq_url = href parsed, rq_uniqueKey = ''post-'' @ postId p\<rparr>
                   in if \<not> str_includes (pathname parsed) ''/groups/''
                         \<and> \<not> str_includes (pathname parsed) ''/profile.php''
                      then (case addRequest cfg rq of
                              Some e \<Rightarrow> (s2, Throw e)
                            | None \<Rightarrow> (s2\<lparr>p_queue := p_queue s2 @ [rq]\<rparr>, Continue))
                      else (s2, Continue))
                else (s1, Continue)))"

text \<open>
  \<^verbatim>\<open>getPosts\<close> (lines 220 to 312): the selector may throw; the \<^verbatim>\<open>catch\<close> rejects the
  gate for an \<^verbatim>\<open>InfoError\<close> of namespace \<^verbatim>\<open>posts\<close> and resolves it otherwise; the
  \<^verbatim>\<open>return\<close> of the loop leaves before the final sleep.
\<close>

definition scrollingSleep :: nat where
  "scrollingSleep = 1500"

definition getPosts_catch :: "error \<Rightarrow> posts_state \<Rightarrow> posts_state" where
  "getPosts_catch e s =
     (case e of
        InfoError msg ns \<Rightarrow>
          if ns = ''posts'' then s\<lparr>p_finish := gate_reject e (p_finish s)\<rparr>
          else s\<lparr>p_finish := gate_resolve (p_finish s)\<rparr>
      | _ \<Rightarrow> s\<lparr>p_finish := gate_resolve (p_finish s)\<rparr>)"

definition getPosts :: "posts_cfg \<Rightarrow> error + post list \<Rightarrow> posts_state \<Rightarrow> posts_state" where
  "getPosts cfg selected s =
     (case selected of
        Inl e \<Rightarrow> (let s1 = getPosts_catch e s in s1\<lparr>p_sleeps := p_sleeps s1 @ [scrollingSleep]\<rparr>)
      | Inr posts \<Rightarrow>
          (case for_each (getPosts_item cfg) posts
                  (s\<lparr>p_counter := counter_add (length posts) (counter_empty (posts = []) (p_counter s))\<rparr>) of
             (s1, Return) \<Rightarrow> s1
           | (s1, Throw e) \<Rightarrow> (let s2 = getPosts_catch e s1 in s2\<lparr>p_sleeps := p_sleeps s2 @ [scrollingSleep]\<rparr>)
           | (s1, _) \<Rightarrow> s1\<lparr>p_sleeps := p_sleeps s1 @ [scrollingSleep]\<rparr>))"

text \<open>
  The observer \<^verbatim>\<open>interceptAjax\<close> of \<^verbatim>\<open>getPostUrls\<close> (lines 317 to 351): first the body
  of its \<^verbatim>\<open>try\<close>, which returns the state and the exception thrown, if any; then the
  \<^verbatim>\<open>catch\<close>, which rejects the gate once the observer is ready.
\<close>

definition posts_status :: "response \<Rightarrow> posts_state \<Rightarrow> posts_state \<times> error option" where
  "posts_status res s =
     (if res_status res \<noteq> 200 \<and> res_status res \<noteq> 302 then
        (s\<lparr>p_finish := gate_resolve (p_finish s)\<rparr>, None)
      else if res_status res = 302
              \<and> (str_includes (res_url res) ''login'' \<or> str_includes (res_url res) ''next='') then
        (s, Some (InfoError ''Redirected to login'' ''getPostUrls''))
      else (s, None))"

definition posts_try :: "response \<Rightarrow> posts_state \<Rightarrow> posts_state \<times> error option" where
  "posts_try res s =
     (if res_json_header res then
        (case res_json res of
           None \<Rightarrow> (s, Some (OtherError ''res.json''))
         | Some json \<Rightarrow>
             if isError json then
               (let s1 = s\<lparr>p_rateLimitCount := p_rateLimitCount s + 1\<rparr> in
                if 20 < p_rateLimitCount s1
                then (s1, Some (InfoError ''Rate limited'' ''getPostUrls''))
                else (s1\<lparr>p_sleeps := p_sleeps s1 @ [p_rateLimitCount s1 * 30]\<rparr>, None))
             else posts_status res (s\<lparr>p_rateLimitCount := 0\<rparr>))
      else posts_status res (s\<lparr>p_rateLimitCount := 0\<rparr>))"

definition posts_interceptAjax :: "response \<Rightarrow> posts_state \<Rightarrow> posts_state" where
  "posts_interceptAjax res s =
     (case posts_try res s of
        (s1, None) \<Rightarrow> s1
      | (s1, Some e) \<Rightarrow> if p_isReady s1 then s1\<lparr>p_finish := gate_reject e (p_finish s1)\<rparr> else s1)"

text \<open>
  A scroll cycle of \<^verbatim>\<open>getPostUrls\<close> calls \<^verbatim>\<open>maybeStop\<close> (lines 377 to 414) with what
  the browser shows at that moment: whether the page is closed, the outcome of waiting
  for the loading marker, the posts selected, the sample of the driver, and the
  outcome of \<^verbatim>\<open>resetScroll\<close>. A cycle that throws is logged by the driver and does not
  stop it (section 7).
\<close>

record posts_cycle =
  pcy_closed :: bool
  pcy_loading :: "error option"
  pcy_posts :: "error + post list"
  pcy_count :: nat
  pcy_bodyChanged :: bool
  pcy_scrollChanged :: bool
  pcy_reset :: "error option"

definition resetScroll :: "bool \<Rightarrow> error option \<Rightarrow> posts_state \<Rightarrow> error option" where
  "resetScroll closed outcome s = (if \<not> closed \<and> \<not> resolved (p_finish s) then outcome else None)"

definition posts_maybeStop :: "posts_cfg \<Rightarrow> posts_cycle \<Rightarrow> posts_state \<Rightarrow> posts_state \<times> bool" where
  "posts_maybeStop cfg cy s =
     (if pcy_closed cy \<or> resolved (p_finish s) then (s, True)
      else
        (let (s1, returned) =
               (case pcy_loading cy of
                  None \<Rightarrow> (getPosts cfg (pcy_posts cy) (s\<lparr>stillLoading := 0\<rparr>), False)
                | Some e \<Rightarrow>
                    if e = TimeoutError then
                      (let s' = s\<lparr>stillLoading := stillLoading s + 1\<rparr> in
                       if urls s' = [] \<and> 15 < stillLoading s'
                       then (s'\<lparr>p_finish := gate_reject (InfoError ''Posts are not loading'' ''posts'') (p_finish s')\<rparr>, True)
                       else (s', False))
                    else (s, False))
         in case resetScroll (pcy_closed cy) (pcy_reset cy) s1 of
              Some e \<Rightarrow> (s1, False)
            | None \<Rightarrow>
                if returned then (s1, False)
                else (s1, pc_max cfg \<le> length (urls s1) \<or> isOver (pc_threshold cfg) (p_counter s1)
                          \<or> (20 < pcy_count cy \<and> \<not> pcy_bodyChanged cy \<and> \<not> pcy_scrollChanged cy))))"

datatype posts_event = PostsResponse response | PostsCycle posts_cycle

fun posts_step :: "posts_cfg \<Rightarrow> posts_event \<Rightarrow> posts_state \<Rightarrow> posts_state \<times> bool" where
  "posts_step cfg (PostsResponse res) s = (posts_interceptAjax res s, False)"
| "posts_step cfg (PostsCycle cy) s = posts_maybeStop cfg cy s"

text \<open>
  What the browser does during one call of \<^verbatim>\<open>getPostUrls\<close>: whether the page is closed
  when the first \<^verbatim>\<open>resetScroll\<close> starts, the responses that arrive while it is awaited
  (the observer is attached and not yet ready), its outcome, and the events of the
  run.
\<close>

record posts_env =
  pe_closed :: bool
  pe_early :: "response list"
  pe_reset :: "error option"
  pe_events :: "posts_event list"

definition posts_observe_all :: "response list \<Rightarrow> posts_state \<Rightarrow> posts_state" where
  "posts_observe_all rs s = foldl (\<lambda>st res. posts_interceptAjax res st) s rs"

definition posts_init :: "session \<Rightarrow> posts_state" where
  "posts_init w =
     \<lparr>urls = new_Set (case userData_urls w of None \<Rightarrow> [] | Some xs \<Rightarrow> xs),
      p_finish = Pending, p_counter = counter_init, p_rateLimitCount = 0, p_isReady = False,
      stillLoading = 0, p_queue = [], p_sleeps = [], p_postpones = 0\<rparr>"

text \<open>
  The \<^verbatim>\<open>try\<close> block of \<^verbatim>\<open>getPostUrls\<close> (lines 355 to 416) as the state at its end and
  how it ended: the first \<^verbatim>\<open>resetScroll\<close>, then the run.
\<close>

definition posts_engine :: "posts_cfg \<Rightarrow> posts_env \<Rightarrow> posts_state \<Rightarrow> posts_state \<times> run_result" where
  "posts_engine cfg env s =
     (if pe_closed env then
        control_run p_finish (posts_step cfg) (pe_events env) (s\<lparr>p_isReady := True\<rparr>)
      else
        (let s1 = posts_observe_all (pe_early env) s in
         case pe_reset env of
           Some e \<Rightarrow> (s1, Failed e)
         | None \<Rightarrow> control_run p_finish (posts_step cfg) (pe_events env) (s1\<lparr>p_isReady := True\<rparr>)))"

text \<open>
  \<^verbatim>\<open>getPostUrls\<close> (lines 196 to 443): the guard on \<^verbatim>\<open>max\<close>, the subscription, the
  \<^verbatim>\<open>try\<close>, the \<^verbatim>\<open>catch\<close> that turns an abort into a normal end unless the failure
  heuristic holds, and the \<^verbatim>\<open>finally\<close>. The result is the session after the call and
  either the exception thrown or the number returned.
\<close>

definition posts_finally :: "posts_state \<Rightarrow> session \<Rightarrow> session" where
  "posts_finally s w = page_off PostsObserver (w\<lparr>userData_urls := Some (urls s)\<rparr>)"

definition posts_catch :: "posts_state \<Rightarrow> run_result \<Rightarrow> error option" where
  "posts_catch s r =
     (case thrown r of
        None \<Rightarrow> None
      | Some e \<Rightarrow>
          if e = AbortError then
            (if neverLoaded (p_counter s)
             then Some (InfoError ''Failed to load posts'' ''getPostUrls'')
             else None)
          else Some e)"

definition getPostUrls :: "posts_cfg \<Rightarrow> posts_env \<Rightarrow> session \<Rightarrow> session \<times> (error + nat)" where
  "getPostUrls cfg env w =
     (if pc_max cfg = 0 then (w, Inr 0)
      else
        (let w1 = page_on PostsObserver w;
             (s, r) = posts_engine cfg env (posts_init w)
         in case posts_catch s r of
              Some e \<Rightarrow> (posts_finally s w1, Inl e)
            | None \<Rightarrow> (posts_finally s w1, Inr (length (urls s)))))"

section \<open>Review discovery: \<^verbatim>\<open>getReviews\<close>\<close>

text \<open>
  The parameters of a call; the permalink adapter of \<^verbatim>\<open>functions.ts\<close> is a parameter
  (\<^verbatim>\<open>parsed?.href ?? null\<close>).
\<close>

record reviews_cfg =
  rc_max :: nat
  rc_date :: MinMaxDates
  rc_permalink :: "string \<Rightarrow> string option"

record reviews_state =
  reviews :: "(string \<times> review) list"
  r_finish :: gate
  r_isReady :: bool
  r_sleeps :: "nat list"
  r_postpones :: nat

text \<open>
  The loop body of \<^verbatim>\<open>getReviewsFromPage\<close> (lines 472 to 482): a review with a url
  that is not yet a key is stored, then the size is compared with \<^verbatim>\<open>max\<close>.
\<close>

definition getReviewsFromPage_item :: "reviews_cfg \<Rightarrow> review \<Rightarrow> reviews_state \<Rightarrow> reviews_state \<times> flow" where
  "getReviewsFromPage_item cfg rv s =
     (let s1 = (case review_url rv of
                  None \<Rightarrow> s
                | Some u \<Rightarrow>
                    if u \<noteq> [] \<and> \<not> map_has (reviews s) u
                    then s\<lparr>r_postpones := r_postpones s + 1, reviews := map_set u rv (reviews s)\<rparr>
                    else s)
      in if rc_max cfg \<le> length (reviews s1)
         then (s1\<lparr>r_finish := gate_resolve (r_finish s1)\<rparr>, Break)
         else (s1, Continue))"

text \<open>
  \<^verbatim>\<open>getReviewsFromPage\<close> (lines 471 to 485): the selector may throw, and then the
  function throws; otherwise the loop and the sleep.
\<close>

definition getReviewsFromPage :: "reviews_cfg \<Rightarrow> error + review list \<Rightarrow> reviews_state \<Rightarrow> reviews_state \<times> error option" where
  "getReviewsFromPage cfg selected s =
     (case selected of
        Inl e \<Rightarrow> (s, Some e)
      | Inr rvs \<Rightarrow>
          (case for_each (getReviewsFromPage_item cfg) rvs s of
             (s1, fl) \<Rightarrow> (s1\<lparr>r_sleeps := r_sleeps s1 @ [500]\<rparr>, None)))"

text \<open>The observer \<^verbatim>\<open>interceptAjax\<close> of \<^verbatim>\<open>getReviews\<close> (lines 489 to 507).\<close>

definition reviews_try :: "response \<Rightarrow> reviews_state \<Rightarrow> reviews_state \<times> error option" where
  "reviews_try res s =
     (if res_status res \<noteq> 200 \<and> res_status res \<noteq> 302 then
        (s\<lparr>r_finish := gate_resolve (r_finish s)\<rparr>, None)
      else if res_status res = 302 then
        (s, Some (InfoError ''Redirected to login'' ''getReviews''))
      else (s, None))"

definition reviews_interceptAjax :: "response \<Rightarrow> reviews_state \<Rightarrow> reviews_state" where
  "reviews_interceptAjax res s =
     (case reviews_try res s of
        (s1, None) \<Rightarrow> s1
      | (s1, Some e) \<Rightarrow> if r_isReady s1 then s1\<lparr>r_finish := gate_reject e (r_finish s1)\<rparr> else s1)"

text \<open>A scroll cycle calls \<^verbatim>\<open>maybeStop\<close> (lines 520 to 528).\<close>

record reviews_cycle =
  rcy_reviews :: "error + review list"
  rcy_count :: nat
  rcy_scrollChanged :: bool
  rcy_bodyChanged :: bool

definition reviews_maybeStop :: "reviews_cfg \<Rightarrow> reviews_cycle \<Rightarrow> reviews_state \<Rightarrow> reviews_state \<times> bool" where
  "reviews_maybeStop cfg cy s =
     (case getReviewsFromPage cfg (rcy_reviews cy) s of
        (s1, caught) \<Rightarrow>
          (s1, rc_max cfg \<le> length (reviews s1)
               \<or> (2 < rcy_count cy \<and> \<not> rcy_scrollChanged cy \<and> \<not> rcy_bodyChanged cy)))"

datatype reviews_event = ReviewsResponse response | ReviewsCycle reviews_cycle

fun reviews_step :: "reviews_cfg \<Rightarrow> reviews_event \<Rightarrow> reviews_state \<Rightarrow> reviews_state \<times> bool" where
  "reviews_step cfg (ReviewsResponse res) s = (reviews_interceptAjax res s, False)"
| "reviews_step cfg (ReviewsCycle cy) s = reviews_maybeStop cfg cy s"

text \<open>
  What the browser does during one call of \<^verbatim>\<open>getReviews\<close>: the outcome of
  \<^verbatim>\<open>pageSelectors.ld\<close> (the rating value and count it reads, if it does not throw), the
  responses that arrive during the first \<^verbatim>\<open>getReviewsFromPage\<close>, what that call
  selects, and the events of the run.
\<close>

record reviews_env =
  re_ld :: "error + (string option \<times> nat option)"
  re_early :: "response list"
  re_first :: "error + review list"
  re_events :: "reviews_event list"

definition reviews_observe_all :: "response list \<Rightarrow> reviews_state \<Rightarrow> reviews_state" where
  "reviews_observe_all rs s = foldl (\<lambda>st res. reviews_interceptAjax res st) s rs"

definition reviews_init :: "session \<Rightarrow> reviews_state" where
  "reviews_init w =
     \<lparr>reviews = new_Map (case userData_reviews w of None \<Rightarrow> [] | Some kvs \<Rightarrow> kvs),
      r_finish = Pending, r_isReady = False, r_sleeps = [], r_postpones = 0\<rparr>"

record processed_review =
  pr_review :: review
  pr_url :: "string option"
  pr_canonical :: "string option"

definition processReview :: "reviews_cfg \<Rightarrow> review \<Rightarrow> processed_review" where
  "processReview cfg rv =
     (case review_url rv of
        None \<Rightarrow> \<lparr>pr_review = rv, pr_url = None, pr_canonical = None\<rparr>
      | Some u \<Rightarrow>
          if u \<noteq> [] \<and> str_includes u ''story_fbid''
          then \<lparr>pr_review = rv, pr_url = rc_permalink cfg u, pr_canonical = Some u\<rparr>
          else \<lparr>pr_review = rv, pr_url = Some u, pr_canonical = None\<rparr>)"

record reviews_result =
  rr_average :: "string option"
  rr_reviews :: "processed_review list"
  rr_count :: "nat option"

definition reviews_finally :: "reviews_state \<Rightarrow> session \<Rightarrow> session" where
  "reviews_finally s w = page_off ReviewsObserver (w\<lparr>userData_reviews := Some (reviews s)\<rparr>)"

definition reviews_catch :: "run_result \<Rightarrow> error option" where
  "reviews_catch r =
     (case thrown r of
        None \<Rightarrow> None
      | Some e \<Rightarrow> if e = AbortError then None else Some e)"

text \<open>
  The state in which the \<^verbatim>\<open>try\<close> of \<^verbatim>\<open>getReviews\<close> starts, or the exception of the first
  \<^verbatim>\<open>getReviewsFromPage\<close> (line 511), which is outside the \<^verbatim>\<open>try\<close>.
\<close>

definition reviews_first :: "reviews_cfg \<Rightarrow> reviews_env \<Rightarrow> session \<Rightarrow> reviews_state \<times> error option" where
  "reviews_first cfg env w =
     getReviewsFromPage cfg (re_first env) (reviews_observe_all (re_early env) (reviews_init w))"

definition reviews_engine :: "reviews_cfg \<Rightarrow> reviews_env \<Rightarrow> reviews_state \<Rightarrow> reviews_state \<times> run_result" where
  "reviews_engine cfg env s =
     control_run r_finish (reviews_step cfg) (re_events env) (s\<lparr>r_isReady := True\<rparr>)"

text \<open>
  \<^verbatim>\<open>getReviews\<close> (lines 448 to 569). The result is the session after the call and
  either the exception thrown or the value returned (\<open>None\<close> is \<^verbatim>\<open>undefined\<close>).
\<close>

definition getReviews :: "reviews_cfg \<Rightarrow> reviews_env \<Rightarrow> session \<Rightarrow> session \<times> (error + reviews_result option)" where
  "getReviews cfg env w =
     (if rc_max cfg = 0 then (w, Inr None)
      else
        (case re_ld env of
           Inl e \<Rightarrow> (w, Inl e)
         | Inr ld \<Rightarrow>
             (let w1 = page_on ReviewsObserver w in
              case reviews_first cfg env w of
                (s0, Some e) \<Rightarrow> (w1, Inl e)
              | (s0, None) \<Rightarrow>
                  (case reviews_engine cfg env s0 of
                     (s, r) \<Rightarrow>
                       (case reviews_catch r of
                          Some e \<Rightarrow> (reviews_finally s w1, Inl e)
                        | None \<Rightarrow>
                            (reviews_finally s w1,
                             Inr (Some \<lparr>rr_average = fst ld,
                                        rr_reviews = map (processReview cfg)
                                          (filter (\<lambda>rv. compare (rc_date cfg) (review_date rv)) (map snd (reviews s))),
                                        rr_count = snd ld\<rparr>)))))))"

section \<open>Comment discovery: \<^verbatim>\<open>getPostComments\<close>\<close>

datatype FbCommentsMode = RANKED_THREADED | RECENT_ACTIVITY | RANKED_UNFILTERED

text \<open>
  The parameters of a call; \<open>cc_add\<close> is the consumer callback \<^verbatim>\<open>add\<close>, which may
  throw.
\<close>

record comments_cfg =
  cc_max :: nat
  cc_date :: MinMaxDates
  cc_mode :: FbCommentsMode
  cc_threshold :: nat
  cc_add :: "comment \<Rightarrow> error option"

text \<open>
  The local variables of the call. \<open>c_max\<close> is the parameter \<^verbatim>\<open>max\<close>, which line 882
  reassigns; \<open>c_count\<close> is \<^verbatim>\<open>count\<close>, the value the call returns. \<open>c_added\<close>,
  \<open>c_sleeps\<close> and \<open>c_postpones\<close> record the calls of \<^verbatim>\<open>add\<close>, \<^verbatim>\<open>sleep\<close> and
  \<^verbatim>\<open>control.postpone\<close>; \<open>c_seen\<close> records the value of \<^verbatim>\<open>data.count\<close> each time
  line 879 reads it.
\<close>

record comments_state =
  comments :: "(string \<times> comment) list"
  c_max :: nat
  c_count :: nat
  c_finish :: gate
  c_counter :: counter
  c_rateLimitCount :: nat
  canStartAdding :: bool
  c_isReady :: bool
  clickTries :: nat
  c_added :: "comment list"
  c_seen :: "nat list"
  c_sleeps :: "nat list"
  c_postpones :: nat

text \<open>
  \<^verbatim>\<open>x || null\<close> on an optional string. In \<open>make_comment\<close> the picture is read with
  \<^verbatim>\<open>get(p, path, default)\<close> (lines 903 to 907), which takes the default only when the
  path gives \<^verbatim>\<open>undefined\<close>: of \<open>profile_picture_depth_0\<close>, \<open>None\<close> is \<^verbatim>\<open>undefined\<close>,
  \<open>Some None\<close> is \<^verbatim>\<open>null\<close>, which is kept and then becomes \<^verbatim>\<open>null\<close> again.
\<close>

definition or_null :: "string option \<Rightarrow> string option" where
  "or_null x = (case x of None \<Rightarrow> None | Some v \<Rightarrow> if v = [] then None else Some v)"

definition make_comment :: "node \<Rightarrow> comment" where
  "make_comment p =
     \<lparr>comment_date = created_time p,
      comment_name = author_name p,
      profileUrl = or_null (author_url p),
      profilePicture = or_null (case profile_picture_depth_0 p of
                                  None \<Rightarrow> profile_picture_depth_1_legacy p
                                | Some uri \<Rightarrow> uri),
      comment_text = or_null (body_text p),
      comment_url = node_url p\<rparr>"

text \<open>The loop body of \<^verbatim>\<open>interceptGrapQL\<close> (lines 890 to 917).\<close>

definition interceptGrapQL_item :: "comments_cfg \<Rightarrow> node \<Rightarrow> comments_state \<Rightarrow> comments_state \<times> flow" where
  "interceptGrapQL_item cfg p s =
     (if \<not> map_has (comments s) (node_id p) then
        (if c_max s \<le> length (comments s) then (s, Break)
         else
           (let (accepted, c) = counter_time (cc_date cfg) (created_time p) (c_counter s);
                s1 = s\<lparr>c_counter := c\<rparr>
            in if accepted then
                 (let s2 = s1\<lparr>comments := map_set (node_id p) (make_comment p) (comments s1),
                              c_added := c_added s1 @ [make_comment p]\<rparr>
                  in case cc_add cfg (make_comment p) of
                       Some e \<Rightarrow> (s2, Throw e)
                     | None \<Rightarrow> (s2, Continue))
               else (s1, Continue)))
      else (s, Continue))"

text \<open>
  The block guarded by \<^verbatim>\<open>if (data)\<close> (lines 878 to 926): the running total, the
  batch, and the decision to resolve the gate. It returns the exception of \<^verbatim>\<open>add\<close>,
  if any.
\<close>

definition nodes_of :: "node option list \<Rightarrow> node list" where
  "nodes_of edges = concat (map (\<lambda>e. case e of None \<Rightarrow> [] | Some p \<Rightarrow> [p]) edges)"

definition interceptGrapQL_count :: "display_comments \<Rightarrow> comments_state \<Rightarrow> comments_state" where
  "interceptGrapQL_count dat s0 =
     (let s = s0\<lparr>c_seen := c_seen s0 @ [dc_count dat]\<rparr> in
      if c_count s < dc_count dat then
        (let s1 = s\<lparr>c_count := dc_count dat\<rparr> in
         if c_count s1 < c_max s1 then s1\<lparr>c_max := c_count s1\<rparr> else s1)
      else s)"

definition interceptGrapQL_data :: "comments_cfg \<Rightarrow> display_comments \<Rightarrow> comments_state \<Rightarrow> comments_state \<times> error option" where
  "interceptGrapQL_data cfg dat s =
     (let s1 = interceptGrapQL_count dat s;
          (s2, fl) =
            (if dc_edges dat \<noteq> [] then
               for_each (interceptGrapQL_item cfg) (nodes_of (dc_edges dat))
                 (s1\<lparr>c_counter := counter_add (length (dc_edges dat)) (c_counter s1),
                     c_postpones := c_postpones s1 + 1\<rparr>)
             else (s1, Continue))
      in case fl of
           Throw e \<Rightarrow> (s2, Some e)
         | _ \<Rightarrow>
             if has_next_page dat = Some False \<or> c_max s2 \<le> length (comments s2)
                \<or> isOver (cc_threshold cfg) (c_counter s2)
             then (s2\<lparr>c_finish := gate_resolve (c_finish s2)\<rparr>, None)
             else (s2, None))"

definition comments_status :: "response \<Rightarrow> comments_state \<Rightarrow> comments_state \<times> error option" where
  "comments_status res s =
     (if res_status res \<noteq> 200 \<and> res_status res \<noteq> 302 then
        (s\<lparr>c_finish := gate_resolve (c_finish s)\<rparr>, None)
      else if res_status res = 302
              \<and> (str_includes (res_url res) ''next='' \<or> str_includes (res_url res) ''/login'') then
        (s, Some (InfoError ''Redirected to login'' ''getPostComments''))
      else (s, None))"

text \<open>
  The observer \<^verbatim>\<open>interceptGrapQL\<close> (lines 855 to 961): the body of its \<^verbatim>\<open>try\<close>, given
  whether the page is closed when the response arrives, and its \<^verbatim>\<open>catch\<close>.
\<close>

definition comments_try :: "comments_cfg \<Rightarrow> bool \<Rightarrow> response \<Rightarrow> comments_state \<Rightarrow> comments_state \<times> error option" where
  "comments_try cfg closed res s =
     (if closed \<or> resolved (c_finish s) then (s, None)
      else if str_includes (res_url res) ''api/graphql/'' \<and> canStartAdding s then
        (case res_json res of
           None \<Rightarrow> comments_status res s
         | Some json \<Rightarrow>
             if \<not> isError json then
               (let s1 = s\<lparr>c_rateLimitCount := 0\<rparr> in
                case feedback_display_comments json of
                  None \<Rightarrow> comments_status res s1
                | Some dat \<Rightarrow>
                    (case interceptGrapQL_data cfg dat s1 of
                       (s2, Some e) \<Rightarrow> (s2, Some e)
                     | (s2, None) \<Rightarrow> comments_status res s2))
             else
               (let s1 = s\<lparr>c_rateLimitCount := c_rateLimitCount s + 1\<rparr> in
                if 20 < c_rateLimitCount s1
                then (s1, Some (InfoError ''Rate limited'' ''getPostComments''))
                else (s1\<lparr>c_sleeps := c_sleeps s1 @ [c_rateLimitCount s1 * 30]\<rparr>, None)))
      else comments_status res s)"

definition interceptGrapQL :: "comments_cfg \<Rightarrow> bool \<Rightarrow> response \<Rightarrow> comments_state \<Rightarrow> comments_state" where
  "interceptGrapQL cfg closed res s =
     (case comments_try cfg closed res s of
        (s1, None) \<Rightarrow> s1
      | (s1, Some e) \<Rightarrow> if c_isReady s1 then s1\<lparr>c_finish := gate_reject e (c_finish s1)\<rparr> else s1)"

text \<open>
  A scroll cycle calls \<^verbatim>\<open>maybeStop\<close> (lines 1084 to 1128): whether the page is closed
  at its start and after its sleep, the number of clicks on the load-more links (or
  the exception of that evaluation, which the \<^verbatim>\<open>catch\<close> logs), and the sample.
\<close>

record comments_cycle =
  ccy_closed :: bool
  ccy_clicked :: "error + nat"
  ccy_closed_later :: bool
  ccy_bodyChanged :: bool

definition comments_over :: "comments_cfg \<Rightarrow> comments_state \<Rightarrow> bool" where
  "comments_over cfg s = (c_max s \<le> length (comments s) \<or> isOver (cc_threshold cfg) (c_counter s))"

definition comments_maybeStop :: "comments_cfg \<Rightarrow> comments_cycle \<Rightarrow> comments_state \<Rightarrow> comments_state \<times> bool" where
  "comments_maybeStop cfg cy s =
     (if ccy_closed cy \<or> resolved (c_finish s) then (s, True)
      else
        (case ccy_clicked cy of
           Inl e \<Rightarrow> (s, comments_over cfg s)
         | Inr clicked \<Rightarrow>
             (let s1 = (if clicked = 0 then s\<lparr>clickTries := clickTries s + 1\<rparr> else s);
                  s2 = s1\<lparr>c_sleeps := c_sleeps s1 @ [500]\<rparr>
              in if ccy_closed_later cy \<or> resolved (c_finish s2)
                    \<or> (\<not> ccy_bodyChanged cy \<and> 3 < clickTries s2)
                 then (s2, True)
                 else (s2, comments_over cfg s2))))"

datatype comments_event = CommentsResponse bool response | CommentsCycle comments_cycle

fun comments_step :: "comments_cfg \<Rightarrow> comments_event \<Rightarrow> comments_state \<Rightarrow> comments_state \<times> bool" where
  "comments_step cfg (CommentsResponse closed res) s = (interceptGrapQL cfg closed res s, False)"
| "comments_step cfg (CommentsCycle cy) s = comments_maybeStop cfg cy s"

text \<open>
  What the browser does during one call of \<^verbatim>\<open>getPostComments\<close>. Each list of
  responses (with the closed flag of the page at arrival) arrives while the call
  awaits the step named: the click loop and its result (lines 973 to 1002), the wait
  for the ordering link, the ordering click for the modes other than threaded (line
  1019), the wait for the menu, the menu click (line 1045) and the wait that follows
  it, and the events of the run. The waits catch their own exceptions.
\<close>

record comments_env =
  ce_load_responses :: "(bool \<times> response) list"
  ce_loadCommentsClicked :: "error + bool"
  ce_order_responses :: "(bool \<times> response) list"
  ce_commentOrdering :: "error + bool"
  ce_menu_responses :: "(bool \<times> response) list"
  ce_menu :: "error option"
  ce_more_responses :: "(bool \<times> response) list"
  ce_events :: "comments_event list"

definition comments_init :: "comments_cfg \<Rightarrow> session \<Rightarrow> comments_state" where
  "comments_init cfg w =
     \<lparr>comments = new_Map (case userData_comments w of None \<Rightarrow> [] | Some kvs \<Rightarrow> kvs),
      c_max = cc_max cfg, c_count = 0, c_finish = Pending, c_counter = counter_init,
      c_rateLimitCount = 0, canStartAdding = False, c_isReady = False, clickTries = 0,
      c_added = [], c_seen = [], c_sleeps = [], c_postpones = 0\<rparr>"

definition observe_all :: "comments_cfg \<Rightarrow> (bool \<times> response) list \<Rightarrow> comments_state \<Rightarrow> comments_state" where
  "observe_all cfg rs s = foldl (\<lambda>st (closed, res). interceptGrapQL cfg closed res st) s rs"

definition comments_run :: "comments_cfg \<Rightarrow> comments_env \<Rightarrow> comments_state \<Rightarrow> comments_state \<times> run_result" where
  "comments_run cfg env s =
     control_run c_finish (comments_step cfg) (ce_events env) (s\<lparr>clickTries := 0, c_isReady := True\<rparr>)"

text \<open>The \<^verbatim>\<open>try\<close> block of \<^verbatim>\<open>getPostComments\<close> (lines 965 to 1133).\<close>

definition comments_engine :: "comments_cfg \<Rightarrow> comments_env \<Rightarrow> comments_state \<Rightarrow> comments_state \<times> run_result" where
  "comments_engine cfg env s0 =
     (let s1 = observe_all cfg (ce_load_responses env)
                 (s0\<lparr>canStartAdding := (cc_mode cfg = RANKED_UNFILTERED \<or> cc_mode cfg = RANKED_THREADED)\<rparr>)
      in case ce_loadCommentsClicked env of
           Inl e \<Rightarrow> (s1, Failed e)
         | Inr False \<Rightarrow> (s1, Finished)
         | Inr True \<Rightarrow>
             (let s2 = observe_all cfg (ce_order_responses env) s1;
                  s3 = s2\<lparr>c_postpones := c_postpones s2 + 1\<rparr>
              in if cc_mode cfg \<noteq> RANKED_THREADED then
                   (case ce_commentOrdering env of
                      Inl e \<Rightarrow> (s3, Failed e)
                    | Inr True \<Rightarrow>
                        (let s4 = (observe_all cfg (ce_menu_responses env) s3)\<lparr>canStartAdding := True\<rparr>
                         in case ce_menu env of
                              Some e \<Rightarrow> (s4, Failed e)
                            | None \<Rightarrow> comments_run cfg env (observe_all cfg (ce_more_responses env) s4))
                    | Inr False \<Rightarrow> comments_run cfg env (s3\<lparr>canStartAdding := True\<rparr>))
                 else comments_run cfg env (s3\<lparr>canStartAdding := True\<rparr>)))"

definition comments_finally :: "comments_state \<Rightarrow> session \<Rightarrow> session" where
  "comments_finally s w = page_off CommentsObserver (w\<lparr>userData_comments := Some (comments s)\<rparr>)"

definition comments_catch :: "run_result \<Rightarrow> error option" where
  "comments_catch r =
     (case thrown r of
        None \<Rightarrow> None
      | Some e \<Rightarrow> if e = AbortError then None else Some e)"

text \<open>
  \<^verbatim>\<open>getPostComments\<close> (lines 819 to 1149). The result is the session after the call
  and either the exception thrown or the number returned, which is \<^verbatim>\<open>count\<close>.
\<close>

definition getPostComments :: "comments_cfg \<Rightarrow> comments_env \<Rightarrow> session \<Rightarrow> session \<times> (error + nat)" where
  "getPostComments cfg env w =
     (if cc_max cfg = 0 then (w, Inr 0)
      else
        (let w1 = page_on CommentsObserver w in
         case comments_engine cfg env (comments_init cfg w) of
           (s, r) \<Rightarrow>
             (case comments_catch r of
                Some e \<Rightarrow> (comments_finally s w1, Inl e)
              | None \<Rightarrow> (comments_finally s w1, Inr (c_count s)))))"

section \<open>Vocabulary of the properties\<close>






text \<open>
  The largest of the counts in a list, 0 for the empty list; and the count the comment
  observer reads from a response (lines 857 to 879): none when it ignores the response,
  does not parse it, finds it error-marked or finds no \<^verbatim>\<open>display_comments\<close> in it.
\<close>

definition largest :: "nat list \<Rightarrow> nat" where
  "largest xs = Max (set (0 # xs))"

definition display_comments_read :: "bool \<Rightarrow> response \<Rightarrow> comments_state \<Rightarrow> nat list" where
  "display_comments_read closed res s =
     (if closed \<or> resolved (c_finish s) \<or> \<not> str_includes (res_url res) ''api/graphql/''
         \<or> \<not> canStartAdding s then []
      else (case res_json res of
              None \<Rightarrow> []
            | Some json \<Rightarrow>
                if isError json then []
                else (case feedback_display_comments json of None \<Rightarrow> [] | Some dat \<Rightarrow> [dc_count dat])))"

section \<open>Concrete inputs\<close>

text \<open>Inputs at which the theorems below are instantiated and the code is evaluated.\<close>

definition ex_session :: session where
  "ex_session = \<lparr>userData_urls = None, userData_reviews = None, userData_comments = None, listeners = []\<rparr>"

definition ex_window :: MinMaxDates where
  "ex_window = \<lparr>date_min = 100, date_max = 200\<rparr>"

definition ex_error_response :: response where
  "ex_error_response =
     \<lparr>res_url = ''https://m.facebook.com/api/graphql/'', res_status = 200, res_json_header = True,
      res_json = Some \<lparr>isError = True, feedback_display_comments = None\<rparr>\<rparr>"


definition ex_comments_cfg :: comments_cfg where
  "ex_comments_cfg =
     \<lparr>cc_max = 5, cc_date = ex_window, cc_mode = RANKED_THREADED, cc_threshold = 3,
      cc_add = (\<lambda>c. None)\<rparr>"

definition ex_comments_ready :: comments_state where
  "ex_comments_ready =
     (comments_init ex_comments_cfg ex_session)\<lparr>canStartAdding := True, c_isReady := True\<rparr>"

definition ex_review1 :: review where
  "ex_review1 = \<lparr>review_url = Some ''/r/1'', review_date = 150, review_text = ''first''\<rparr>"

definition ex_review2 :: review where
  "ex_review2 = \<lparr>review_url = Some ''/r/2'', review_date = 50, review_text = ''second''\<rparr>"

definition ex_reviews_cfg :: reviews_cfg where
  "ex_reviews_cfg = \<lparr>rc_max = 1, rc_date = ex_window, rc_permalink = (\<lambda>u. Some u)\<rparr>"

text \<open>A retry whose snapshot already holds one review, while the page shows another one.\<close>

definition ex_resumed :: session where
  "ex_resumed = ex_session\<lparr>userData_reviews := Some [(''/r/1'', ex_review1)]\<rparr>"

definition ex_reviews_env :: reviews_env where
  "ex_reviews_env =
     \<lparr>re_ld = Inr (None, None), re_early = [], re_first = Inr [ex_review2], re_events = []\<rparr>"

text \<open>A call whose first selection of reviews times out.\<close>

definition ex_reviews_timeout :: reviews_env where
  "ex_reviews_timeout =
     \<lparr>re_ld = Inr (None, None), re_early = [], re_first = Inl TimeoutError, re_events = []\<rparr>"

text \<open>A redirect that does not lead to the login page.\<close>

definition ex_redirect :: response where
  "ex_redirect =
     \<lparr>res_url = ''https://m.facebook.com/page/reviews/'', res_status = 302, res_json_header = False,
      res_json = None\<rparr>"

text \<open>A post discovery in which one post is accepted before a redirect to the login page.\<close>

definition ex_posts_cfg :: posts_cfg where
  "ex_posts_cfg =
     \<lparr>pc_max = 2, pc_date = ex_window, pc_username = ''page'', pc_threshold = 3,
      PSN_POST_TYPE_BLACKLIST = [],
      storyFbToDesktopPermalink = (\<lambda>u user pid. Some \<lparr>href = u, pathname = u\<rparr>),
      addRequest = (\<lambda>rq. None)\<rparr>"

definition ex_post :: post where
  "ex_post =
     \<lparr>isPinned = False, post_url = ''/page/posts/1'',
      ft = Some \<lparr>top_level_post_id = ''1'', story_attachment_style = ''photo'', page_id = ''9'',
                 page_insights = Some [(''9'', \<lparr>psn = ''EntStatusCreationStory'', publish_time = Some 150\<rparr>)]\<rparr>\<rparr>"

definition ex_login_redirect :: response where
  "ex_login_redirect =
     \<lparr>res_url = ''https://m.facebook.com/login.php'', res_status = 302, res_json_header = False,
      res_json = None\<rparr>"

definition ex_posts_cycle :: posts_cycle where
  "ex_posts_cycle =
     \<lparr>pcy_closed = False, pcy_loading = None, pcy_posts = Inr [ex_post], pcy_count = 1,
      pcy_bodyChanged = True, pcy_scrollChanged = True, pcy_reset = None\<rparr>"

definition ex_posts_env :: posts_env where
  "ex_posts_env =
     \<lparr>pe_closed = False, pe_early = [], pe_reset = None,
      pe_events = [PostsCycle ex_posts_cycle, PostsResponse ex_login_redirect]\<rparr>"

text \<open>
  Five cycles in which the selector finds no post, then silence: the idle timer fires
  while the failure heuristic holds.
\<close>

definition ex_empty_cycle :: posts_cycle where
  "ex_empty_cycle =
     \<lparr>pcy_closed = False, pcy_loading = None, pcy_posts = Inr [], pcy_count = 1,
      pcy_bodyChanged = True, pcy_scrollChanged = True, pcy_reset = None\<rparr>"

definition ex_posts_env_empty :: posts_env where
  "ex_posts_env_empty =
     \<lparr>pe_closed = False, pe_early = [], pe_reset = None,
      pe_events = replicate 5 (PostsCycle ex_empty_cycle)\<rparr>"

text \<open>A comment discovery: one payload with a running total of 7 and one comment, then silence.\<close>

definition ex_node :: node where
  "ex_node =
     \<lparr>node_id = ''c1'', created_time = 150, author_name = ''Ann'', author_url = None,
      profile_picture_depth_0 = None, profile_picture_depth_1_legacy = None,
      body_text = Some ''hello'', node_url = ''/c/1''\<rparr>"

definition ex_comments_response :: response where
  "ex_comments_response =
     \<lparr>res_url = ''https://m.facebook.com/api/graphql/'', res_status = 200, res_json_header = True,
      res_json = Some \<lparr>isError = False,
                       feedback_display_comments =
                         Some \<lparr>dc_count = 7, dc_edges = [Some ex_node], has_next_page = Some True\<rparr>\<rparr>\<rparr>"

definition ex_comments_env :: comments_env where
  "ex_comments_env =
     \<lparr>ce_load_responses = [], ce_loadCommentsClicked = Inr True, ce_order_responses = [],
      ce_commentOrdering = Inr False, ce_menu_responses = [], ce_menu = None,
      ce_more_responses = [], ce_events = [CommentsResponse False ex_comments_response]\<rparr>"

text \<open>A retry with one comment in the snapshot on a page without a load-comments button.\<close>

definition ex_comment0 :: comment where
  "ex_comment0 =
     \<lparr>comment_date = 120, comment_name = ''Bob'', profileUrl = None, profilePicture = None,
      comment_text = None, comment_url = ''/c/0''\<rparr>"

definition ex_resumed_comments :: session where
  "ex_resumed_comments = ex_session\<lparr>userData_comments := Some [(''c0'', ex_comment0)]\<rparr>"

definition ex_comments_env_quiet :: comments_env where
  "ex_comments_env_quiet =
     \<lparr>ce_load_responses = [], ce_loadCommentsClicked = Inr False, ce_order_responses = [],
      ce_commentOrdering = Inr False, ce_menu_responses = [], ce_menu = None,
      ce_more_responses = [], ce_events = []\<rparr>"

text \<open>One cycle that accepts a post, then silence; a review page that shows nothing.\<close>

definition ex_posts_env_idle :: posts_env where
  "ex_posts_env_idle =
     \<lparr>pe_closed = False, pe_early = [], pe_reset = None, pe_events = [PostsCycle ex_posts_cycle]\<rparr>"

definition ex_reviews_env_idle :: reviews_env where
  "ex_reviews_env_idle =
     \<lparr>re_ld = Inr (None, None), re_early = [], re_first = Inr [], re_events = []\<rparr>"

text \<open>Items whose key is already stored, with another payload.\<close>

definition ex_review1_changed :: review where
  "ex_review1_changed = ex_review1\<lparr>review_date := 160, review_text := ''edited''\<rparr>"

definition ex_reviews_env_again :: reviews_env where
  "ex_reviews_env_again =
     \<lparr>re_ld = Inr (None, None), re_early = [], re_first = Inr [],
      re_events = [ReviewsCycle \<lparr>rcy_reviews = Inr [ex_review1_changed], rcy_count = 1,
                                 rcy_scrollChanged = True, rcy_bodyChanged = True\<rparr>]\<rparr>"

definition ex_node_again :: node where
  "ex_node_again = ex_node\<lparr>node_id := ''c0''\<rparr>"

definition ex_comments_env_again :: comments_env where
  "ex_comments_env_again =
     ex_comments_env\<lparr>ce_events :=
       [CommentsResponse False
          (ex_comments_response\<lparr>res_json :=
             Some \<lparr>isError = False,
                   feedback_display_comments =
                     Some \<lparr>dc_count = 7, dc_edges = [Some ex_node_again], has_next_page = Some True\<rparr>\<rparr>\<rparr>)]\<rparr>"

definition ex_resumed_posts :: session where
  "ex_resumed_posts = ex_session\<lparr>userData_urls := Some [''/page/posts/1'']\<rparr>"

definition ex_pinned :: post where
  "ex_pinned = ex_post\<lparr>isPinned := True\<rparr>"

text \<open>A response with a status other than 200 and 302.\<close>

definition ex_not_found :: response where
  "ex_not_found =
     \<lparr>res_url = ''https://m.facebook.com/missing.png'', res_status = 404, res_json_header = False,
      res_json = None\<rparr>"


section \<open>Invariants of loops and runs\<close>

lemma for_each_invariant:
  assumes step: "\<And>x s s' fl. I s \<Longrightarrow> body x s = (s', fl) \<Longrightarrow> I s'"
  shows "I s \<Longrightarrow> for_each body xs s = (s', fl) \<Longrightarrow> I s'"
proof (induction xs arbitrary: s)
  case Nil
  then show ?case by simp
next
  case (Cons x xs)
  obtain s1 fl1 where b: "body x s = (s1, fl1)" by (cases "body x s")
  have I1: "I s1" using step [OF Cons.prems(1) b] .
  show ?case
  proof (cases fl1)
    case Continue
    with Cons.prems(2) b have "for_each body xs s1 = (s', fl)" by simp
    then show ?thesis using Cons.IH [OF I1] by simp
  next
    case Break
    with Cons.prems(2) b I1 show ?thesis by simp
  next
    case Return
    with Cons.prems(2) b I1 show ?thesis by simp
  next
    case (Throw e)
    with Cons.prems(2) b I1 show ?thesis by simp
  qed
qed

lemma run_loop_invariant:
  assumes step: "\<And>ev s s' stop. I s \<Longrightarrow> st ev s = (s', stop) \<Longrightarrow> I s'"
  shows "I s \<Longrightarrow> run_loop g st evs s = (s', r) \<Longrightarrow> I s'"
proof (induction evs arbitrary: s)
  case Nil
  then show ?case by simp
next
  case (Cons ev evs)
  obtain s1 stop where b: "st ev s = (s1, stop)" by (cases "st ev s")
  have I1: "I s1" using step [OF Cons.prems(1) b] .
  show ?case
  proof (cases "g s1")
    case Pending
    show ?thesis
    proof (cases stop)
      case True
      with Cons.prems(2) b Pending I1 show ?thesis by simp
    next
      case False
      with Cons.prems(2) b Pending have "run_loop g st evs s1 = (s', r)" by simp
      then show ?thesis using Cons.IH [OF I1] by simp
    qed
  next
    case Resolved
    with Cons.prems(2) b I1 show ?thesis by simp
  next
    case (Rejected e)
    with Cons.prems(2) b I1 show ?thesis by simp
  qed
qed

lemma control_run_invariant:
  assumes step: "\<And>ev s s' stop. I s \<Longrightarrow> st ev s = (s', stop) \<Longrightarrow> I s'"
  shows "I s \<Longrightarrow> control_run g st evs s = (s', r) \<Longrightarrow> I s'"
  unfolding control_run_def
  using run_loop_invariant [of I st, OF step]
  by (cases "g s") auto

lemma foldl_invariant:
  assumes step: "\<And>x s. I s \<Longrightarrow> I (f s x)"
  shows "I s \<Longrightarrow> I (foldl f s xs)"
  by (induction xs arbitrary: s) (auto intro: step)



section \<open>Lifting an invariant through a call\<close>

text \<open>
  A property of the state that the loop body and the assignments of a flow preserve
  holds after every observer firing, every scroll cycle and the whole engine.
\<close>

lemma comments_lift:
  fixes I :: "comments_state \<Rightarrow> bool"
  assumes item: "\<And>p s s' fl. I s \<Longrightarrow> interceptGrapQL_item cfg p s = (s', fl) \<Longrightarrow> I s'"
    and count: "\<And>dat s. I s \<Longrightarrow> I (interceptGrapQL_count dat s)"
    and cadd: "\<And>s n. I s \<Longrightarrow> I (s\<lparr>c_counter := counter_add n (c_counter s)\<rparr>)"
    and f_finish: "\<And>s v. I s \<Longrightarrow> I (s\<lparr>c_finish := v\<rparr>)"
    and f_rate: "\<And>s v. I s \<Longrightarrow> I (s\<lparr>c_rateLimitCount := v\<rparr>)"
    and f_sleeps: "\<And>s v. I s \<Longrightarrow> I (s\<lparr>c_sleeps := v\<rparr>)"
    and f_post: "\<And>s v. I s \<Longrightarrow> I (s\<lparr>c_postpones := v\<rparr>)"
    and f_can: "\<And>s v. I s \<Longrightarrow> I (s\<lparr>canStartAdding := v\<rparr>)"
    and f_ready: "\<And>s v. I s \<Longrightarrow> I (s\<lparr>c_isReady := v\<rparr>)"
    and f_click: "\<And>s v. I s \<Longrightarrow> I (s\<lparr>clickTries := v\<rparr>)"
  shows comments_lift_observer: "I s \<Longrightarrow> I (interceptGrapQL cfg closed res s)"
    and comments_lift_step: "I s \<Longrightarrow> I (fst (comments_step cfg ev s))"
    and comments_lift_engine: "I s \<Longrightarrow> I (fst (comments_engine cfg env s))"
proof -
  have status: "I (fst (comments_status r t))" if "I t" for r t
    using that by (auto simp: comments_status_def intro: f_finish)
  have data: "I (fst (interceptGrapQL_data cfg dat t))" if "I t" for dat t
  proof -
    let ?t1 = "interceptGrapQL_count dat t"
    let ?t2 = "?t1\<lparr>c_counter := counter_add (length (dc_edges dat)) (c_counter ?t1),
                     c_postpones := c_postpones ?t1 + 1\<rparr>"
    have t1: "I ?t1" using that by (rule count)
    have t2: "I ?t2" by (intro f_post cadd t1)
    obtain t3 fl where fe: "for_each (interceptGrapQL_item cfg) (nodes_of (dc_edges dat)) ?t2 = (t3, fl)"
      by (cases "for_each (interceptGrapQL_item cfg) (nodes_of (dc_edges dat)) ?t2")
    have t3: "I t3"
      using for_each_invariant [of I "interceptGrapQL_item cfg", OF item t2 fe] .
    show ?thesis
      using t1 t3 fe
      by (auto simp: interceptGrapQL_data_def Let_def split: flow.splits intro: f_finish)
  qed
  have tr: "I (fst (comments_try cfg c r t))" if "I t" for c r t
  proof -
    have a: "I (t\<lparr>c_rateLimitCount := v\<rparr>)" for v using that by (rule f_rate)
    show ?thesis
      unfolding comments_try_def Let_def
      using that a status data
      by (auto split: option.splits prod.splits intro!: f_sleeps
               simp: split_beta)
  qed
  show obs: "I (interceptGrapQL cfg closed res s)" if "I s" for s closed res
    using tr [OF that, of closed res]
    by (auto simp: interceptGrapQL_def split: prod.splits option.splits intro: f_finish)
  have cycle: "I (fst (comments_maybeStop cfg cy t))" if "I t" for cy t
    using that
    by (auto simp: comments_maybeStop_def Let_def split: sum.splits intro!: f_sleeps f_click)
  show step: "I (fst (comments_step cfg ev s))" if "I s" for s ev
    using that obs cycle by (cases ev) auto
  have all: "I (observe_all cfg rs t)" if "I t" for rs t
    unfolding observe_all_def
    using that by (rule foldl_invariant [rotated]) (auto intro: obs)
  have run: "I (fst (comments_run cfg env t))" if "I t" for t
  proof -
    obtain t' r where cr: "control_run c_finish (comments_step cfg) (ce_events env)
        (t\<lparr>clickTries := 0, c_isReady := True\<rparr>) = (t', r)"
      by (cases "control_run c_finish (comments_step cfg) (ce_events env) (t\<lparr>clickTries := 0, c_isReady := True\<rparr>)")
    have "I (t\<lparr>clickTries := 0, c_isReady := True\<rparr>)" by (intro f_ready f_click that)
    then have "I t'"
      using control_run_invariant [of I "comments_step cfg" _ c_finish "ce_events env" t' r] cr step
      by (metis fst_conv)
    then show ?thesis by (simp add: comments_run_def cr)
  qed
  show "I (fst (comments_engine cfg env s))" if "I s"
    unfolding comments_engine_def Let_def
    by (auto split: sum.splits bool.splits option.splits intro!: run all f_can f_post that)
qed


lemma posts_lift:
  fixes I :: "posts_state \<Rightarrow> bool"
  assumes item: "\<And>p s s' fl. I s \<Longrightarrow> getPosts_item cfg p s = (s', fl) \<Longrightarrow> I s'"
    and batch: "\<And>s n b. I s \<Longrightarrow> I (s\<lparr>p_counter := counter_add n (counter_empty b (p_counter s))\<rparr>)"
    and f_finish: "\<And>s v. I s \<Longrightarrow> I (s\<lparr>p_finish := v\<rparr>)"
    and f_rate: "\<And>s v. I s \<Longrightarrow> I (s\<lparr>p_rateLimitCount := v\<rparr>)"
    and f_sleeps: "\<And>s v. I s \<Longrightarrow> I (s\<lparr>p_sleeps := v\<rparr>)"
    and f_ready: "\<And>s v. I s \<Longrightarrow> I (s\<lparr>p_isReady := v\<rparr>)"
    and f_still: "\<And>s v. I s \<Longrightarrow> I (s\<lparr>stillLoading := v\<rparr>)"
  shows posts_lift_observer: "I s \<Longrightarrow> I (posts_interceptAjax res s)"
    and posts_lift_getPosts: "I s \<Longrightarrow> I (getPosts cfg sel s)"
    and posts_lift_step: "I s \<Longrightarrow> I (fst (posts_step cfg ev s))"
    and posts_lift_engine: "I s \<Longrightarrow> I (fst (posts_engine cfg env s))"
proof -
  have status: "I (fst (posts_status r t))" if "I t" for r t
    using that by (auto simp: posts_status_def intro: f_finish)
  have tr: "I (fst (posts_try r t))" if "I t" for r t
  proof -
    have a: "I (t\<lparr>p_rateLimitCount := v\<rparr>)" for v using that by (rule f_rate)
    show ?thesis
      unfolding posts_try_def Let_def
      using that a status
      by (auto split: option.splits intro!: f_sleeps)
  qed
  show obs: "I (posts_interceptAjax res s)" if "I s" for s res
    using tr [OF that, of res]
    by (auto simp: posts_interceptAjax_def split: prod.splits option.splits intro: f_finish)
  have catch: "I (getPosts_catch e t)" if "I t" for e t
    using that by (auto simp: getPosts_catch_def split: error.splits intro: f_finish)
  show gp: "I (getPosts cfg sel s)" if "I s" for s sel
  proof (cases sel)
    case (Inl e)
    then show ?thesis using that by (auto simp: getPosts_def Let_def intro!: f_sleeps catch)
  next
    case (Inr posts)
    let ?t = "s\<lparr>p_counter := counter_add (length posts) (counter_empty (posts = []) (p_counter s))\<rparr>"
    obtain t' fl where fe: "for_each (getPosts_item cfg) posts ?t = (t', fl)"
      by (cases "for_each (getPosts_item cfg) posts ?t")
    have "I ?t" using that by (rule batch)
    then have "I t'"
      using for_each_invariant [of I "getPosts_item cfg", OF item _ fe] by simp
    then show ?thesis
      using Inr fe by (cases fl) (auto simp: getPosts_def Let_def intro!: f_sleeps catch)
  qed
  have cycle: "I (fst (posts_maybeStop cfg cy t))" if "I t" for cy t
  proof -
    have a: "I (getPosts cfg sel (t\<lparr>stillLoading := 0\<rparr>))" for sel
      by (intro gp f_still that)
    have b: "I (t\<lparr>stillLoading := v\<rparr>)" for v using that by (rule f_still)
    show ?thesis
      unfolding posts_maybeStop_def Let_def
      using that a b
      by (auto split: option.splits prod.splits if_splits intro!: f_finish)
  qed
  show step: "I (fst (posts_step cfg ev s))" if "I s" for s ev
    using that obs cycle by (cases ev) auto
  have all: "I (posts_observe_all rs t)" if "I t" for rs t
    unfolding posts_observe_all_def
    using that by (rule foldl_invariant [rotated]) (auto intro: obs)
  have run: "I (fst (control_run p_finish (posts_step cfg) evs t))" if "I t" for t evs
  proof -
    obtain t' r where cr: "control_run p_finish (posts_step cfg) evs t = (t', r)"
      by (cases "control_run p_finish (posts_step cfg) evs t")
    have "I t'"
      using control_run_invariant [of I "posts_step cfg" t p_finish evs t' r] cr step that
      by (metis fst_conv)
    then show ?thesis by (simp add: cr)
  qed
  show "I (fst (posts_engine cfg env s))" if "I s"
    unfolding posts_engine_def Let_def
    by (auto split: option.splits intro!: run all f_ready that)
qed

lemma reviews_lift:
  fixes I :: "reviews_state \<Rightarrow> bool"
  assumes item: "\<And>rv s s' fl. I s \<Longrightarrow> getReviewsFromPage_item cfg rv s = (s', fl) \<Longrightarrow> I s'"
    and f_finish: "\<And>s v. I s \<Longrightarrow> I (s\<lparr>r_finish := v\<rparr>)"
    and f_sleeps: "\<And>s v. I s \<Longrightarrow> I (s\<lparr>r_sleeps := v\<rparr>)"
    and f_ready: "\<And>s v. I s \<Longrightarrow> I (s\<lparr>r_isReady := v\<rparr>)"
  shows reviews_lift_observer: "I s \<Longrightarrow> I (reviews_interceptAjax res s)"
    and reviews_lift_page: "I s \<Longrightarrow> I (fst (getReviewsFromPage cfg sel s))"
    and reviews_lift_step: "I s \<Longrightarrow> I (fst (reviews_step cfg ev s))"
    and reviews_lift_first: "I (reviews_init w) \<Longrightarrow> I (fst (reviews_first cfg env w))"
    and reviews_lift_engine: "I s \<Longrightarrow> I (fst (reviews_engine cfg env s))"
proof -
  show obs: "I (reviews_interceptAjax res s)" if "I s" for s res
    using that
    by (auto simp: reviews_interceptAjax_def reviews_try_def split: prod.splits option.splits
             intro: f_finish)
  show pg: "I (fst (getReviewsFromPage cfg sel s))" if "I s" for s sel
  proof (cases sel)
    case (Inl e)
    then show ?thesis using that by (simp add: getReviewsFromPage_def)
  next
    case (Inr rvs)
    obtain t' fl where fe: "for_each (getReviewsFromPage_item cfg) rvs s = (t', fl)"
      by (cases "for_each (getReviewsFromPage_item cfg) rvs s")
    have "I t'"
      using for_each_invariant [of I "getReviewsFromPage_item cfg", OF item that fe] .
    then show ?thesis
      using Inr fe by (auto simp: getReviewsFromPage_def intro!: f_sleeps)
  qed
  show step: "I (fst (reviews_step cfg ev s))" if "I s" for s ev
  proof (cases ev)
    case (ReviewsResponse res)
    then show ?thesis using obs [OF that] by simp
  next
    case (ReviewsCycle cy)
    then show ?thesis
      using pg [OF that, of "rcy_reviews cy"]
      by (auto simp: reviews_maybeStop_def split: prod.splits)
  qed
  have all: "I (reviews_observe_all rs t)" if "I t" for rs t
    unfolding reviews_observe_all_def
    using that by (rule foldl_invariant [rotated]) (auto intro: obs)
  show "I (fst (reviews_first cfg env w))" if "I (reviews_init w)"
    unfolding reviews_first_def by (intro pg all that)
  show "I (fst (reviews_engine cfg env s))" if "I s"
  proof -
    obtain t' r where cr: "control_run r_finish (reviews_step cfg) (re_events env)
        (s\<lparr>r_isReady := True\<rparr>) = (t', r)"
      by (cases "control_run r_finish (reviews_step cfg) (re_events env) (s\<lparr>r_isReady := True\<rparr>)")
    have "I (s\<lparr>r_isReady := True\<rparr>)" by (intro f_ready that)
    then have "I t'"
      using control_run_invariant [of I "reviews_step cfg" _ r_finish "re_events env" t' r] cr step
      by (metis fst_conv)
    then show ?thesis by (simp add: reviews_engine_def cr)
  qed
qed

section \<open>Rate limiting in the observers\<close>

subsection \<open>The post observer\<close>






subsection \<open>The comment observer\<close>





















section \<open>Observers and the settled gate\<close>

lemma gate_settled [simp]:
  "g \<noteq> Pending \<Longrightarrow> gate_resolve g = g" "g \<noteq> Pending \<Longrightarrow> gate_reject e g = g"
  by (simp_all add: gate_resolve_def gate_reject_def)

text \<open>
  The comment observer returns at once when the page is closed or the gate settled
  (line 857): the whole state is unchanged. On a settled gate the review observer
  changes nothing, and the post observer leaves the gate, the urls, the range counter
  and the queue as they are.
\<close>

lemma comments_ignore:
  "closed \<or> resolved (c_finish s) \<Longrightarrow> interceptGrapQL cfg closed res s = s"
  by (simp add: interceptGrapQL_def comments_try_def)

lemma reviews_settled:
  "resolved (r_finish s) \<Longrightarrow> reviews_interceptAjax res s = s"
  by (simp add: reviews_interceptAjax_def reviews_try_def resolved_def)

lemma posts_settled:
  assumes "resolved (p_finish s)"
  shows "p_finish (posts_interceptAjax res s) = p_finish s"
    and "urls (posts_interceptAjax res s) = urls s"
    and "p_counter (posts_interceptAjax res s) = p_counter s"
    and "p_queue (posts_interceptAjax res s) = p_queue s"
  using assms
  by (auto simp: posts_interceptAjax_def posts_try_def posts_status_def resolved_def Let_def
           split: option.splits if_splits)

text \<open>
  Claim C9 at a failing input. While \<^verbatim>\<open>getPostUrls\<close> awaits its first \<^verbatim>\<open>resetScroll\<close>, a
  response with status 404 resolves the gate and an error-marked payload follows. The
  observer \<^verbatim>\<open>interceptAjax\<close> does not read the gate (lines 317 to 351): on the settled
  gate it adds one to the rate-limit counter and sleeps 30 ms.
\<close>

theorem posts_observer_on_settled_gate:
  "resolved (p_finish (posts_observe_all [ex_not_found] (posts_init ex_session)))
   \<and> posts_observe_all [ex_not_found, ex_error_response] (posts_init ex_session)
       = (posts_observe_all [ex_not_found] (posts_init ex_session))\<lparr>p_rateLimitCount := 1, p_sleeps := [30]\<rparr>"
  by code_simp

section \<open>The flows on the concrete inputs\<close>

lemma ex_posts_login_engine:
  "urls (fst (posts_engine ex_posts_cfg ex_posts_env (posts_init ex_session))) = [''/page/posts/1'']"
  "snd (posts_engine ex_posts_cfg ex_posts_env (posts_init ex_session))
     = Failed (InfoError ''Redirected to login'' ''getPostUrls'')"
  by code_simp+

lemma ex_reviews_engine:
  "snd (reviews_first ex_reviews_cfg ex_reviews_env ex_resumed) = None"
  "reviews (fst (reviews_engine ex_reviews_cfg ex_reviews_env
      (fst (reviews_first ex_reviews_cfg ex_reviews_env ex_resumed))))
     = [(''/r/1'', ex_review1), (''/r/2'', ex_review2)]"
  by code_simp+

lemma ex_reviews_timeout_first:
  "reviews_first ex_reviews_cfg ex_reviews_timeout ex_resumed = (reviews_init ex_resumed, Some TimeoutError)"
  by code_simp

lemma ex_comments_engine:
  "comments (fst (comments_engine ex_comments_cfg ex_comments_env (comments_init ex_comments_cfg ex_session)))
     = [(''c1'', make_comment ex_node)]"
  "snd (comments_engine ex_comments_cfg ex_comments_env (comments_init ex_comments_cfg ex_session)) = Aborted"
  by code_simp+

lemma ex_max:
  "pc_max ex_posts_cfg = 2" "rc_max ex_reviews_cfg = 1" "cc_max ex_comments_cfg = 5"
  by (simp_all add: ex_posts_cfg_def ex_reviews_cfg_def ex_comments_cfg_def)

lemma ex_ld: "re_ld ex_reviews_env = Inr (None, None)" "re_ld ex_reviews_timeout = Inr (None, None)"
  by (simp_all add: ex_reviews_env_def ex_reviews_timeout_def)


lemma ex_idle_runs:
  "snd (posts_engine ex_posts_cfg ex_posts_env_empty (posts_init ex_session)) = Aborted"
  "neverLoaded (p_counter (fst (posts_engine ex_posts_cfg ex_posts_env_empty (posts_init ex_session))))"
  "snd (posts_engine ex_posts_cfg ex_posts_env_idle (posts_init ex_session)) = Aborted"
  "\<not> neverLoaded (p_counter (fst (posts_engine ex_posts_cfg ex_posts_env_idle (posts_init ex_session))))"
  "urls (fst (posts_engine ex_posts_cfg ex_posts_env_idle (posts_init ex_session))) = [''/page/posts/1'']"
  "c_count (fst (comments_engine ex_comments_cfg ex_comments_env (comments_init ex_comments_cfg ex_session))) = 7"
  "snd (reviews_first ex_reviews_cfg ex_reviews_env_idle ex_session) = None"
  "snd (reviews_engine ex_reviews_cfg ex_reviews_env_idle
      (fst (reviews_first ex_reviews_cfg ex_reviews_env_idle ex_session))) = Aborted"
  "re_ld ex_reviews_env_idle = Inr (None, None)"
  by code_simp+

lemma ex_count_runs:
  "c_seen (fst (comments_engine ex_comments_cfg ex_comments_env (comments_init ex_comments_cfg ex_session))) = [7]"
  "comments_catch (snd (comments_engine ex_comments_cfg ex_comments_env (comments_init ex_comments_cfg ex_session))) = None"
  "c_seen (fst (comments_engine ex_comments_cfg ex_comments_env_quiet (comments_init ex_comments_cfg ex_resumed_comments))) = []"
  "comments_catch (snd (comments_engine ex_comments_cfg ex_comments_env_quiet (comments_init ex_comments_cfg ex_resumed_comments))) = None"
  "userData_comments (fst (getPostComments ex_comments_cfg ex_comments_env_quiet ex_resumed_comments))
     = Some [(''c0'', ex_comment0)]"
  "largest [7] = 7" "largest [] = 0"
  by code_simp+


lemma ex_again:
  "review_url ex_review1_changed = Some ''/r/1''"
  "map_has (reviews (reviews_init ex_resumed)) ''/r/1''"
  "reviews (reviews_init ex_resumed) = [(''/r/1'', ex_review1)]"
  "map_of (reviews (reviews_init ex_resumed)) ''/r/1'' = Some ex_review1"
  "map_has (comments (comments_init ex_comments_cfg ex_resumed_comments)) (node_id ex_node_again)"
  "map_of (comments (comments_init ex_comments_cfg ex_resumed_comments)) ''c0'' = Some ex_comment0"
  "storyFbToDesktopPermalink ex_posts_cfg (post_url ex_post) (pc_username ex_posts_cfg) (postId ex_post)
     = Some \<lparr>href = ''/page/posts/1'', pathname = ''/page/posts/1''\<rparr>"
  "urls (posts_init ex_resumed_posts) = [''/page/posts/1'']"
  by code_simp+

lemma ex_merges:
  "interceptGrapQL_item ex_comments_cfg ex_node ex_comments_ready
     = (ex_comments_ready\<lparr>comments := [(''c1'', make_comment ex_node)],
          c_counter := counter_init\<lparr>inRange := 1\<rparr>, c_added := [make_comment ex_node]\<rparr>, Continue)"
  "comments ex_comments_ready = []"
  "getPosts_item ex_posts_cfg ex_pinned (posts_init ex_session)
     = ((posts_init ex_session)\<lparr>urls := [''/page/posts/1''], p_postpones := 1,
          p_queue := [\<lparr>rq_url = ''/page/posts/1'', rq_uniqueKey = ''post-1''\<rparr>]\<rparr>, Continue)"
  "urls (posts_init ex_session) = []"
  "isPinned ex_pinned"
  "review_url ex_review2 = Some ''/r/2''"
  "reviews (reviews_init ex_session) = []"
  "getReviews ex_reviews_cfg ex_reviews_env ex_resumed
     = (ex_resumed\<lparr>userData_reviews := Some [(''/r/1'', ex_review1), (''/r/2'', ex_review2)]\<rparr>,
        Inr (Some \<lparr>rr_average = None,
                   rr_reviews = [\<lparr>pr_review = ex_review1, pr_url = Some ''/r/1'', pr_canonical = None\<rparr>],
                   rr_count = None\<rparr>))"
  by code_simp+


lemma ex_merges_more:
  "getPosts_item ex_posts_cfg ex_post (posts_init ex_session)
     = ((posts_init ex_session)\<lparr>urls := [''/page/posts/1''], p_postpones := 1,
          p_counter := counter_init\<lparr>inRange := 1\<rparr>,
          p_queue := [\<lparr>rq_url = ''/page/posts/1'', rq_uniqueKey = ''post-1''\<rparr>]\<rparr>, Continue)"
  "\<not> isPinned ex_post"
  "p_counter (posts_init ex_session) = counter_init"
  "comments (comments_init ex_comments_cfg ex_session) = []"
  by code_simp+

section \<open>The resumable state\<close>


lemma reviews_observer_reviews: "reviews (reviews_interceptAjax res s) = reviews s"
  by (auto simp: reviews_interceptAjax_def reviews_try_def split: prod.splits option.splits)

lemma reviews_observe_all_reviews: "reviews (reviews_observe_all rs s) = reviews s"
  unfolding reviews_observe_all_def
  by (induction rs arbitrary: s) (simp_all add: reviews_observer_reviews)

lemma reviews_first_throws:
  assumes "reviews_first cfg env w = (s0, Some e)"
  shows "reviews s0 = new_Map (case userData_reviews w of None \<Rightarrow> [] | Some kvs \<Rightarrow> kvs)"
  using assms
  by (auto simp: reviews_first_def getReviewsFromPage_def reviews_observe_all_reviews reviews_init_def
           split: sum.splits prod.splits)

text \<open>
  Claim C1. For a positive \<^verbatim>\<open>max\<close>, however the engine of \<^verbatim>\<open>getPostUrls\<close>,
  \<^verbatim>\<open>getReviews\<close> or \<^verbatim>\<open>getPostComments\<close> ends (the run completes, it throws the rejection
  of the gate or another exception, or the idle timer aborts it), the call leaves in
  \<^verbatim>\<open>request.userData\<close> exactly the accumulator of the state in which the engine ended,
  so what was accepted before a fatal error is persisted. In \<^verbatim>\<open>getReviews\<close> the first
  \<^verbatim>\<open>getReviewsFromPage\<close> runs before the engine; when it throws nothing has been
  accepted yet: the accumulator is the seeded snapshot and \<^verbatim>\<open>request.userData\<close> is as
  the caller left it.
\<close>

theorem resumable_state_persisted:
  "(pc_max pcfg \<noteq> 0 \<and> posts_engine pcfg penv (posts_init w) = (ps, r1) \<longrightarrow>
      userData_urls (fst (getPostUrls pcfg penv w)) = Some (urls ps))
   \<and> (rc_max rcfg \<noteq> 0 \<and> re_ld renv = Inr ld \<and> reviews_first rcfg renv w = (rs0, None)
       \<and> reviews_engine rcfg renv rs0 = (rs, r2) \<longrightarrow>
      userData_reviews (fst (getReviews rcfg renv w)) = Some (reviews rs))
   \<and> (rc_max rcfg \<noteq> 0 \<and> re_ld renv = Inr ld \<and> reviews_first rcfg renv w = (rs0, Some e) \<longrightarrow>
      reviews rs0 = new_Map (case userData_reviews w of None \<Rightarrow> [] | Some kvs \<Rightarrow> kvs)
      \<and> userData_reviews (fst (getReviews rcfg renv w)) = userData_reviews w)
   \<and> (cc_max ccfg \<noteq> 0 \<and> comments_engine ccfg cenv (comments_init ccfg w) = (cs, r3) \<longrightarrow>
      userData_comments (fst (getPostComments ccfg cenv w)) = Some (comments cs))"
proof (intro conjI impI)
  show "userData_urls (fst (getPostUrls pcfg penv w)) = Some (urls ps)"
    if "pc_max pcfg \<noteq> 0 \<and> posts_engine pcfg penv (posts_init w) = (ps, r1)"
    using that
    by (simp add: getPostUrls_def posts_finally_def page_off_def Let_def split: option.splits)
  show "userData_reviews (fst (getReviews rcfg renv w)) = Some (reviews rs)"
    if "rc_max rcfg \<noteq> 0 \<and> re_ld renv = Inr ld \<and> reviews_first rcfg renv w = (rs0, None)
       \<and> reviews_engine rcfg renv rs0 = (rs, r2)"
    using that
    by (simp add: getReviews_def reviews_finally_def page_off_def Let_def split: option.splits)
  assume a: "rc_max rcfg \<noteq> 0 \<and> re_ld renv = Inr ld \<and> reviews_first rcfg renv w = (rs0, Some e)"
  then show "reviews rs0 = new_Map (case userData_reviews w of None \<Rightarrow> [] | Some kvs \<Rightarrow> kvs)"
    using reviews_first_throws by blast
  show "userData_reviews (fst (getReviews rcfg renv w)) = userData_reviews w"
    using a by (simp add: getReviews_def page_on_def Let_def)
next
  show "userData_comments (fst (getPostComments ccfg cenv w)) = Some (comments cs)"
    if "cc_max ccfg \<noteq> 0 \<and> comments_engine ccfg cenv (comments_init ccfg w) = (cs, r3)"
    using that
    by (simp add: getPostComments_def comments_finally_def page_off_def Let_def split: option.splits)
qed

text \<open>
  A post accepted before a redirect to the login page, a review call that completes, a
  review call whose first selection throws, and a comment call that is aborted.
\<close>

theorem resumable_state_persisted_witness:
  "userData_urls (fst (getPostUrls ex_posts_cfg ex_posts_env ex_session)) = Some [''/page/posts/1'']
   \<and> snd (posts_engine ex_posts_cfg ex_posts_env (posts_init ex_session))
       = Failed (InfoError ''Redirected to login'' ''getPostUrls'')
   \<and> userData_reviews (fst (getReviews ex_reviews_cfg ex_reviews_env ex_resumed))
       = Some [(''/r/1'', ex_review1), (''/r/2'', ex_review2)]
   \<and> userData_reviews (fst (getReviews ex_reviews_cfg ex_reviews_timeout ex_resumed))
       = userData_reviews ex_resumed
   \<and> userData_comments (fst (getPostComments ex_comments_cfg ex_comments_env ex_session))
       = Some [(''c1'', make_comment ex_node)]
   \<and> snd (comments_engine ex_comments_cfg ex_comments_env (comments_init ex_comments_cfg ex_session))
       = Aborted"
proof -
  note a = resumable_state_persisted [where pcfg = ex_posts_cfg and penv = ex_posts_env and w = ex_session
          and ps = "fst (posts_engine ex_posts_cfg ex_posts_env (posts_init ex_session))"
          and ?r1.0 = "snd (posts_engine ex_posts_cfg ex_posts_env (posts_init ex_session))"
          and ccfg = ex_comments_cfg and cenv = ex_comments_env
          and cs = "fst (comments_engine ex_comments_cfg ex_comments_env (comments_init ex_comments_cfg ex_session))"
          and ?r3.0 = "snd (comments_engine ex_comments_cfg ex_comments_env (comments_init ex_comments_cfg ex_session))"]
  note b = resumable_state_persisted [where rcfg = ex_reviews_cfg and renv = ex_reviews_env and w = ex_resumed
          and ld = "(None, None)"
          and ?rs0.0 = "fst (reviews_first ex_reviews_cfg ex_reviews_env ex_resumed)"
          and rs = "fst (reviews_engine ex_reviews_cfg ex_reviews_env (fst (reviews_first ex_reviews_cfg ex_reviews_env ex_resumed)))"
          and ?r2.0 = "snd (reviews_engine ex_reviews_cfg ex_reviews_env (fst (reviews_first ex_reviews_cfg ex_reviews_env ex_resumed)))"]
  note c = resumable_state_persisted [where rcfg = ex_reviews_cfg and renv = ex_reviews_timeout and w = ex_resumed
          and ld = "(None, None)" and ?rs0.0 = "reviews_init ex_resumed" and e = TimeoutError]
  have 1: "userData_urls (fst (getPostUrls ex_posts_cfg ex_posts_env ex_session)) = Some [''/page/posts/1'']"
    using a [THEN conjunct1] by (simp add: ex_max ex_posts_login_engine prod_eq_iff)
  have 2: "userData_comments (fst (getPostComments ex_comments_cfg ex_comments_env ex_session))
       = Some [(''c1'', make_comment ex_node)]"
    using a [THEN conjunct2, THEN conjunct2, THEN conjunct2] by (simp add: ex_max ex_comments_engine prod_eq_iff)
  have 3: "userData_reviews (fst (getReviews ex_reviews_cfg ex_reviews_env ex_resumed))
       = Some [(''/r/1'', ex_review1), (''/r/2'', ex_review2)]"
    using b [THEN conjunct2, THEN conjunct1] by (simp add: ex_max ex_ld ex_reviews_engine prod_eq_iff)
  have 4: "userData_reviews (fst (getReviews ex_reviews_cfg ex_reviews_timeout ex_resumed))
       = userData_reviews ex_resumed"
    using c [THEN conjunct2, THEN conjunct2, THEN conjunct1] by (simp add: ex_max ex_ld ex_reviews_timeout_first)
  show ?thesis
    using 1 2 3 4 by (simp add: ex_posts_login_engine ex_comments_engine)
qed

section \<open>The idle abort\<close>

lemma counter_time_empty: "emptyCalls (snd (counter_time w ts c)) = emptyCalls c"
  by (simp add: counter_time_def)

lemma comments_item_empty:
  "emptyCalls (c_counter s) = 0 \<Longrightarrow> interceptGrapQL_item cfg p s = (s', fl)
   \<Longrightarrow> emptyCalls (c_counter s') = 0"
  using counter_time_empty [of "cc_date cfg" "created_time p" "c_counter s"]
  by (auto simp: interceptGrapQL_item_def Let_def split: if_splits prod.splits option.splits)

lemma comments_never_empty:
  "emptyCalls (c_counter (fst (comments_engine cfg env (comments_init cfg w)))) = 0"
proof (rule comments_lift_engine [where I = "\<lambda>s. emptyCalls (c_counter s) = 0"])
  show "emptyCalls (c_counter (comments_init cfg w)) = 0"
    by (simp add: comments_init_def counter_init_def)
qed (auto simp: comments_item_empty interceptGrapQL_count_def counter_add_def Let_def)

text \<open>
  Claim C6. When the idle timer aborts the run of \<^verbatim>\<open>getPostUrls\<close>, the call returns
  the number of urls as after a normal end, unless the counter shows calls and more
  empty calls than items seen: then it throws \<^verbatim>\<open>Failed to load posts\<close>. An aborted
  \<^verbatim>\<open>getPostComments\<close> returns its count and an aborted \<^verbatim>\<open>getReviews\<close> its result: the
  comment flow never counts an empty call, so the heuristic cannot hold there, and the
  review flow has no range counter.
\<close>

theorem idle_abort_outcome:
  "(pc_max pcfg \<noteq> 0 \<and> posts_engine pcfg penv (posts_init w) = (ps, Aborted) \<longrightarrow>
      snd (getPostUrls pcfg penv w)
        = (if neverLoaded (p_counter ps)
           then Inl (InfoError ''Failed to load posts'' ''getPostUrls'')
           else Inr (length (urls ps))))
   \<and> (cc_max ccfg \<noteq> 0 \<and> comments_engine ccfg cenv (comments_init ccfg w) = (cs, Aborted) \<longrightarrow>
      \<not> neverLoaded (c_counter cs) \<and> snd (getPostComments ccfg cenv w) = Inr (c_count cs))
   \<and> (rc_max rcfg \<noteq> 0 \<and> re_ld renv = Inr ld \<and> reviews_first rcfg renv w = (rs0, None)
       \<and> reviews_engine rcfg renv rs0 = (rs, Aborted) \<longrightarrow>
      (\<exists>res. snd (getReviews rcfg renv w) = Inr (Some res)))"
proof (intro conjI impI)
  show "snd (getPostUrls pcfg penv w)
        = (if neverLoaded (p_counter ps)
           then Inl (InfoError ''Failed to load posts'' ''getPostUrls'')
           else Inr (length (urls ps)))"
    if "pc_max pcfg \<noteq> 0 \<and> posts_engine pcfg penv (posts_init w) = (ps, Aborted)"
    using that by (simp add: getPostUrls_def posts_catch_def thrown_def Let_def)
  assume a: "cc_max ccfg \<noteq> 0 \<and> comments_engine ccfg cenv (comments_init ccfg w) = (cs, Aborted)"
  show "\<not> neverLoaded (c_counter cs)"
    using a comments_never_empty [of ccfg cenv w] by (simp add: neverLoaded_def)
  show "snd (getPostComments ccfg cenv w) = Inr (c_count cs)"
    using a by (simp add: getPostComments_def comments_catch_def thrown_def Let_def)
next
  show "\<exists>res. snd (getReviews rcfg renv w) = Inr (Some res)"
    if "rc_max rcfg \<noteq> 0 \<and> re_ld renv = Inr ld \<and> reviews_first rcfg renv w = (rs0, None)
       \<and> reviews_engine rcfg renv rs0 = (rs, Aborted)"
    using that by (simp add: getReviews_def reviews_catch_def thrown_def Let_def)
qed

text \<open>
  An abort while the failure heuristic holds, and an abort of each flow while it does not.
\<close>

theorem idle_abort_outcome_witness:
  "snd (getPostUrls ex_posts_cfg ex_posts_env_empty ex_session)
     = Inl (InfoError ''Failed to load posts'' ''getPostUrls'')
   \<and> snd (getPostUrls ex_posts_cfg ex_posts_env_idle ex_session) = Inr 1
   \<and> snd (getPostComments ex_comments_cfg ex_comments_env ex_session) = Inr 7
   \<and> (\<exists>res. snd (getReviews ex_reviews_cfg ex_reviews_env_idle ex_session) = Inr (Some res))"
proof -
  note a = idle_abort_outcome [where pcfg = ex_posts_cfg and penv = ex_posts_env_empty and w = ex_session
      and ps = "fst (posts_engine ex_posts_cfg ex_posts_env_empty (posts_init ex_session))", THEN conjunct1]
  note b = idle_abort_outcome [where pcfg = ex_posts_cfg and penv = ex_posts_env_idle and w = ex_session
      and ps = "fst (posts_engine ex_posts_cfg ex_posts_env_idle (posts_init ex_session))", THEN conjunct1]
  note c = idle_abort_outcome [where ccfg = ex_comments_cfg and cenv = ex_comments_env and w = ex_session
      and cs = "fst (comments_engine ex_comments_cfg ex_comments_env (comments_init ex_comments_cfg ex_session))",
      THEN conjunct2, THEN conjunct1]
  note d = idle_abort_outcome [where rcfg = ex_reviews_cfg and renv = ex_reviews_env_idle and w = ex_session
      and ld = "(None, None)"
      and ?rs0.0 = "fst (reviews_first ex_reviews_cfg ex_reviews_env_idle ex_session)"
      and rs = "fst (reviews_engine ex_reviews_cfg ex_reviews_env_idle
                  (fst (reviews_first ex_reviews_cfg ex_reviews_env_idle ex_session)))",
      THEN conjunct2, THEN conjunct2]
  have 1: "snd (getPostUrls ex_posts_cfg ex_posts_env_empty ex_session)
     = Inl (InfoError ''Failed to load posts'' ''getPostUrls'')"
    using a by (simp add: ex_max ex_idle_runs prod_eq_iff)
  have 2: "snd (getPostUrls ex_posts_cfg ex_posts_env_idle ex_session) = Inr 1"
    using b by (simp add: ex_max ex_idle_runs prod_eq_iff)
  have 3: "snd (getPostComments ex_comments_cfg ex_comments_env ex_session) = Inr 7"
    using c by (simp add: ex_max ex_idle_runs ex_comments_engine prod_eq_iff)
  have 4: "\<exists>res. snd (getReviews ex_reviews_cfg ex_reviews_env_idle ex_session) = Inr (Some res)"
    using d by (simp add: ex_max ex_idle_runs prod_eq_iff)
  show ?thesis using 1 2 3 4 by simp
qed

section \<open>The number \<^verbatim>\<open>getPostComments\<close> returns\<close>

lemma Max_snoc: "Max (set (0 # xs @ [d])) = max (Max (set (0 # xs))) (d::nat)"
proof -
  have "set (0 # xs @ [d]) = insert d (set (0 # xs))" by auto
  then show ?thesis by (simp add: max.commute del: set_simps)
qed

lemma largest_snoc: "largest (xs @ [d]) = max (largest xs) d"
  unfolding largest_def by (rule Max_snoc)

lemma comments_count_largest:
  "c_count (fst (comments_engine cfg env (comments_init cfg w)))
     = largest (c_seen (fst (comments_engine cfg env (comments_init cfg w))))"
proof (rule comments_lift_engine [where I = "\<lambda>s. c_count s = largest (c_seen s)"])
  show "c_count (comments_init cfg w) = largest (c_seen (comments_init cfg w))"
    by (simp add: comments_init_def largest_def)
  show "c_count s' = largest (c_seen s')"
    if "c_count s = largest (c_seen s)" "interceptGrapQL_item cfg p s = (s', fl)" for p s s' fl
    using that
    by (auto simp: interceptGrapQL_item_def Let_def split: if_splits prod.splits option.splits)
  show "c_count (interceptGrapQL_count dat s) = largest (c_seen (interceptGrapQL_count dat s))"
    if "c_count s = largest (c_seen s)" for dat s
    using that by (auto simp: interceptGrapQL_count_def Let_def largest_snoc)
qed auto


lemma item_seen:
  "interceptGrapQL_item cfg p s = (s', fl) \<Longrightarrow> c_seen s' = c_seen s"
  by (auto simp: interceptGrapQL_item_def Let_def split: if_splits prod.splits option.splits)

lemma items_seen:
  assumes "for_each (interceptGrapQL_item cfg) ps s = (s', fl)"
  shows "c_seen s' = c_seen s"
  using for_each_invariant [where I = "\<lambda>t. c_seen t = c_seen s" and s = s, OF _ _ assms]
  by (simp add: item_seen)

lemma count_seen: "c_seen (interceptGrapQL_count dat s) = c_seen s @ [dc_count dat]"
  by (simp add: interceptGrapQL_count_def Let_def)

lemma data_seen:
  assumes "interceptGrapQL_data cfg dat s = (s', r)"
  shows "c_seen s' = c_seen s @ [dc_count dat]"
  using assms
  by (auto simp: interceptGrapQL_data_def Let_def count_seen
           split: if_splits prod.splits flow.splits dest!: items_seen)

lemma status_seen: "c_seen (fst (comments_status res s)) = c_seen s"
  by (simp add: comments_status_def)

lemma try_seen:
  "c_seen (fst (comments_try cfg closed res s)) = c_seen s @ display_comments_read closed res s"
proof (cases "closed \<or> resolved (c_finish s) \<or> \<not> str_includes (res_url res) ''api/graphql/''
         \<or> \<not> canStartAdding s")
  case True
  then show ?thesis
    by (auto simp: comments_try_def display_comments_read_def status_seen)
next
  case False
  show ?thesis
  proof (cases "res_json res")
    case None
    with False show ?thesis
      by (simp add: comments_try_def display_comments_read_def status_seen)
  next
    case (Some json)
    show ?thesis
    proof (cases "isError json")
      case True
      with False Some show ?thesis
        by (simp add: comments_try_def display_comments_read_def Let_def)
    next
      case ne: False
      show ?thesis
      proof (cases "feedback_display_comments json")
        case None
        with False Some ne show ?thesis
          using status_seen [of res "s\<lparr>c_rateLimitCount := 0\<rparr>"]
          by (simp add: comments_try_def display_comments_read_def)
      next
        case (Some dat)
        obtain s2 r where d: "interceptGrapQL_data cfg dat (s\<lparr>c_rateLimitCount := 0\<rparr>) = (s2, r)"
          by (cases "interceptGrapQL_data cfg dat (s\<lparr>c_rateLimitCount := 0\<rparr>)")
        have "c_seen s2 = c_seen s @ [dc_count dat]" using data_seen [OF d] by simp
        then show ?thesis
          using False \<open>res_json res = Some json\<close> ne Some d status_seen [of res s2]
          by (cases r) (simp_all add: comments_try_def display_comments_read_def)
      qed
    qed
  qed
qed

lemma observer_seen:
  "c_seen (interceptGrapQL cfg closed res s) = c_seen s @ display_comments_read closed res s"
  using try_seen [of cfg closed res s]
  by (auto simp: interceptGrapQL_def split: prod.splits option.splits)

lemma cycle_seen: "c_seen (fst (comments_maybeStop cfg cy s)) = c_seen s"
  by (auto simp: comments_maybeStop_def Let_def split: sum.splits)

text \<open>
  Claim C10. A call of \<^verbatim>\<open>getPostComments\<close> with a positive \<^verbatim>\<open>max\<close> that returns, returns
  the largest of the \<^verbatim>\<open>display_comments\<close> counts its observer read during the call, and
  0 when it read none. The list of the counts read starts empty, grows by the count of
  each payload the observer reads, and by nothing else. The number of comments in the
  accumulator plays no part: a call can return 7 with one comment accumulated, and 0
  with a snapshot that is not empty.
\<close>

theorem returned_count:
  "(cc_max cfg \<noteq> 0 \<and> comments_engine cfg env (comments_init cfg w) = (s, r) \<and> comments_catch r = None
      \<longrightarrow> snd (getPostComments cfg env w) = Inr (largest (c_seen s)))
   \<and> c_seen (interceptGrapQL cfg closed res t) = c_seen t @ display_comments_read closed res t
   \<and> c_seen (fst (comments_maybeStop cfg cy t)) = c_seen t
   \<and> c_seen (comments_init cfg w) = []"
proof (intro conjI impI)
  assume a: "cc_max cfg \<noteq> 0 \<and> comments_engine cfg env (comments_init cfg w) = (s, r) \<and> comments_catch r = None"
  then have "snd (getPostComments cfg env w) = Inr (c_count s)"
    by (simp add: getPostComments_def Let_def)
  then show "snd (getPostComments cfg env w) = Inr (largest (c_seen s))"
    using a comments_count_largest [of cfg env w] by simp
qed (simp_all add: observer_seen cycle_seen comments_init_def)

text \<open>
  A call that returns 7 with one comment accumulated, and one that returns 0 with a
  snapshot of one comment.
\<close>

theorem returned_count_witness:
  "snd (getPostComments ex_comments_cfg ex_comments_env ex_session) = Inr 7
   \<and> userData_comments (fst (getPostComments ex_comments_cfg ex_comments_env ex_session))
       = Some [(''c1'', make_comment ex_node)]
   \<and> snd (getPostComments ex_comments_cfg ex_comments_env_quiet ex_resumed_comments) = Inr 0
   \<and> userData_comments (fst (getPostComments ex_comments_cfg ex_comments_env_quiet ex_resumed_comments))
       = Some [(''c0'', ex_comment0)]"
proof -
  note a = returned_count [where cfg = ex_comments_cfg and env = ex_comments_env and w = ex_session
      and s = "fst (comments_engine ex_comments_cfg ex_comments_env (comments_init ex_comments_cfg ex_session))"
      and r = "snd (comments_engine ex_comments_cfg ex_comments_env (comments_init ex_comments_cfg ex_session))",
      THEN conjunct1]
  note b = returned_count [where cfg = ex_comments_cfg and env = ex_comments_env_quiet and w = ex_resumed_comments
      and s = "fst (comments_engine ex_comments_cfg ex_comments_env_quiet (comments_init ex_comments_cfg ex_resumed_comments))"
      and r = "snd (comments_engine ex_comments_cfg ex_comments_env_quiet (comments_init ex_comments_cfg ex_resumed_comments))",
      THEN conjunct1]
  have 1: "snd (getPostComments ex_comments_cfg ex_comments_env ex_session) = Inr 7"
    using a by (simp add: ex_max ex_count_runs prod_eq_iff)
  have 2: "snd (getPostComments ex_comments_cfg ex_comments_env_quiet ex_resumed_comments) = Inr 0"
    using b by (simp add: ex_max ex_count_runs prod_eq_iff)
  have 3: "userData_comments (fst (getPostComments ex_comments_cfg ex_comments_env ex_session))
       = Some [(''c1'', make_comment ex_node)]"
    by code_simp
  show ?thesis using 1 2 3 ex_count_runs(5) by simp
qed

section \<open>Merging into the accumulator\<close>

lemma map_set_present:
  "map_of m k = Some v \<Longrightarrow> k' \<noteq> k \<Longrightarrow> map_of (map_set k' v' m) k = Some v"
  by (induction m) (auto split: if_splits)

lemma map_set_absent_length: "\<not> map_has m k \<Longrightarrow> length (map_set k v m) = Suc (length m)"
  by (induction m) (auto simp: map_has_def)

lemma map_set_absent: "\<not> map_has m k \<Longrightarrow> map_set k v m = m @ [(k, v)]"
  by (induction m) (auto simp: map_has_def)

lemma map_has_map_of: "map_has m k \<longleftrightarrow> map_of m k \<noteq> None"
  by (induction m) (auto simp: map_has_def)

lemma map_set_fresh:
  "map_of m k = Some v \<Longrightarrow> map_of m k' = None \<Longrightarrow> map_of (map_set k' v' m) k = Some v"
  by (rule map_set_present) auto

lemma reviews_item_present:
  assumes "review_url rv = Some u" "map_has (reviews s) u"
  shows "reviews (fst (getReviewsFromPage_item cfg rv s)) = reviews s"
  using assms by (simp add: getReviewsFromPage_item_def Let_def)

lemma comments_item_present:
  assumes "map_has (comments s) (node_id p)"
  shows "interceptGrapQL_item cfg p s = (s, Continue)"
  using assms by (simp add: interceptGrapQL_item_def)

lemma posts_item_present:
  assumes "storyFbToDesktopPermalink cfg (post_url p) (pc_username cfg) (postId p) = Some parsed"
    and "href parsed \<in> set (urls s)"
  shows "urls (fst (getPosts_item cfg p s)) = urls s"
  using assms
  by (auto simp: getPosts_item_def Let_def split: prod.splits)

lemma posts_item_urls:
  "urls (fst (getPosts_item cfg p s)) = urls s
   \<or> (\<exists>u. u \<notin> set (urls s) \<and> urls (fst (getPosts_item cfg p s)) = urls s @ [u])"
  by (auto simp: getPosts_item_def Let_def split: prod.splits option.splits)

lemma reviews_item_kept:
  assumes "map_of (reviews s) k = Some v"
  shows "map_of (reviews (fst (getReviewsFromPage_item cfg rv s))) k = Some v"
  using assms
  by (auto simp: getReviewsFromPage_item_def Let_def map_has_map_of map_set_fresh
           split: option.splits)

lemma comments_item_kept:
  assumes "map_of (comments s) k = Some v"
  shows "map_of (comments (fst (interceptGrapQL_item cfg p s))) k = Some v"
  using assms
  by (auto simp: interceptGrapQL_item_def Let_def map_has_map_of map_set_fresh
           split: option.splits prod.splits)

lemma reviews_first_value_kept:
  assumes "map_of (reviews s) k = Some v"
  shows "map_of (reviews (fst (reviews_engine cfg env s))) k = Some v"
proof (rule reviews_lift_engine [where I = "\<lambda>s. map_of (reviews s) k = Some v"])
  show "map_of (reviews s') k = Some v"
    if "map_of (reviews s) k = Some v" "getReviewsFromPage_item cfg rv s = (s', fl)" for rv s s' fl
    using reviews_item_kept [OF that(1), of cfg rv] that(2) by simp
qed (use assms in auto)

lemma comments_first_value_kept:
  assumes "map_of (comments s) k = Some v"
  shows "map_of (comments (fst (comments_engine cfg env s))) k = Some v"
proof (rule comments_lift_engine [where I = "\<lambda>s. map_of (comments s) k = Some v"])
  show "map_of (comments s') k = Some v"
    if "map_of (comments s) k = Some v" "interceptGrapQL_item cfg p s = (s', fl)" for p s s' fl
    using comments_item_kept [OF that(1), of cfg p] that(2) by simp
qed (use assms in \<open>auto simp: interceptGrapQL_count_def Let_def\<close>)

text \<open>
  Claim C8. In each flow the loop body leaves the accumulator as it is for an item
  whose key is present, whatever the item carries: the reviews and their number are
  unchanged for a review whose url is a key, the whole state is unchanged for a
  comment node whose id is a key, and the urls are unchanged for a post whose
  permalink is among them. A value stored under a key of the reviews or of the
  comments is still stored under it when the engine ends.
\<close>

theorem accumulator_idempotent:
  "(review_url rv = Some u \<and> map_has (reviews rs) u \<longrightarrow>
      reviews (fst (getReviewsFromPage_item rcfg rv rs)) = reviews rs)
   \<and> (map_has (comments cs) (node_id p) \<longrightarrow> interceptGrapQL_item ccfg p cs = (cs, Continue))
   \<and> (storyFbToDesktopPermalink pcfg (post_url po) (pc_username pcfg) (postId po) = Some parsed
       \<and> href parsed \<in> set (urls ps) \<longrightarrow>
      urls (fst (getPosts_item pcfg po ps)) = urls ps)
   \<and> (map_of (reviews rs) k = Some rv0 \<longrightarrow>
      map_of (reviews (fst (reviews_engine rcfg renv rs))) k = Some rv0)
   \<and> (map_of (comments cs) k = Some c0 \<longrightarrow>
      map_of (comments (fst (comments_engine ccfg cenv cs))) k = Some c0)"
  using reviews_item_present [of rv u rs rcfg] comments_item_present [of cs p ccfg]
    posts_item_present [of pcfg po parsed ps] reviews_first_value_kept [of rs k rv0 rcfg renv]
    comments_first_value_kept [of cs k c0 ccfg cenv]
  by blast

text \<open>
  A review, a comment node and a post whose keys are stored, each with another payload.
\<close>

theorem accumulator_idempotent_witness:
  "reviews (fst (getReviewsFromPage_item ex_reviews_cfg ex_review1_changed (reviews_init ex_resumed)))
     = [(''/r/1'', ex_review1)]
   \<and> interceptGrapQL_item ex_comments_cfg ex_node_again (comments_init ex_comments_cfg ex_resumed_comments)
       = (comments_init ex_comments_cfg ex_resumed_comments, Continue)
   \<and> urls (fst (getPosts_item ex_posts_cfg ex_post (posts_init ex_resumed_posts))) = [''/page/posts/1'']
   \<and> map_of (reviews (fst (reviews_engine ex_reviews_cfg ex_reviews_env_again (reviews_init ex_resumed))))
        ''/r/1'' = Some ex_review1
   \<and> map_of (comments (fst (comments_engine ex_comments_cfg ex_comments_env_again
        (comments_init ex_comments_cfg ex_resumed_comments)))) ''c0'' = Some ex_comment0"
proof -
  note t = accumulator_idempotent [where rv = ex_review1_changed and u = "''/r/1''"
      and rs = "reviews_init ex_resumed" and rcfg = ex_reviews_cfg
      and cs = "comments_init ex_comments_cfg ex_resumed_comments" and p = ex_node_again
      and ccfg = ex_comments_cfg and pcfg = ex_posts_cfg and po = ex_post
      and parsed = "\<lparr>href = ''/page/posts/1'', pathname = ''/page/posts/1''\<rparr>"
      and ps = "posts_init ex_resumed_posts" and k = "''/r/1''" and ?rv0.0 = ex_review1
      and renv = ex_reviews_env_again]
  note t' = accumulator_idempotent [where cs = "comments_init ex_comments_cfg ex_resumed_comments"
      and ccfg = ex_comments_cfg and k = "''c0''" and ?c0.0 = ex_comment0
      and cenv = ex_comments_env_again]
  have 1: "reviews (fst (getReviewsFromPage_item ex_reviews_cfg ex_review1_changed (reviews_init ex_resumed)))
     = [(''/r/1'', ex_review1)]"
    using t [THEN conjunct1] ex_again(1,2,3) by simp
  have 2: "interceptGrapQL_item ex_comments_cfg ex_node_again (comments_init ex_comments_cfg ex_resumed_comments)
       = (comments_init ex_comments_cfg ex_resumed_comments, Continue)"
    using t [THEN conjunct2, THEN conjunct1] ex_again(5) by simp
  have 3: "urls (fst (getPosts_item ex_posts_cfg ex_post (posts_init ex_resumed_posts))) = [''/page/posts/1'']"
    using t [THEN conjunct2, THEN conjunct2, THEN conjunct1] ex_again(7,8) by simp
  have 4: "map_of (reviews (fst (reviews_engine ex_reviews_cfg ex_reviews_env_again (reviews_init ex_resumed))))
        ''/r/1'' = Some ex_review1"
    using t [THEN conjunct2, THEN conjunct2, THEN conjunct2, THEN conjunct1] ex_again(4) by simp
  have 5: "map_of (comments (fst (comments_engine ex_comments_cfg ex_comments_env_again
        (comments_init ex_comments_cfg ex_resumed_comments)))) ''c0'' = Some ex_comment0"
    using t' [THEN conjunct2, THEN conjunct2, THEN conjunct2, THEN conjunct2] ex_again(6) by simp
  show ?thesis using 1 2 3 4 5 by simp
qed

section \<open>Classification against the date window\<close>

lemma counter_time_accepts: "counter_time w ts c = (True, c') \<Longrightarrow> compare w ts"
  by (auto simp: counter_time_def compare_def split: if_splits)

lemma comments_item_merge:
  assumes "interceptGrapQL_item cfg p s = (s', fl)" "comments s' \<noteq> comments s"
  shows "counter_time (cc_date cfg) (created_time p) (c_counter s) = (True, c_counter s')
         \<and> comments s' = comments s @ [(node_id p, make_comment p)]"
  using assms
  by (auto simp: interceptGrapQL_item_def Let_def map_set_absent
           split: if_splits prod.splits option.splits)

lemma posts_item_merge:
  assumes "getPosts_item cfg p s = (s', fl)" "urls s' \<noteq> urls s"
  shows "compare (pc_date cfg) (convertedDate p)
         \<and> (if isPinned p then p_counter s' = p_counter s
            else counter_time (pc_date cfg) (convertedDate p) (p_counter s) = (True, p_counter s'))"
  using assms
  by (auto simp: getPosts_item_def Let_def
           split: if_splits prod.splits option.splits dest: counter_time_accepts)

lemma reviews_item_merge:
  assumes "review_url rv = Some u" "u \<noteq> []" "\<not> map_has (reviews s) u"
  shows "reviews (fst (getReviewsFromPage_item cfg rv s)) = reviews s @ [(u, rv)]"
  using assms by (simp add: getReviewsFromPage_item_def Let_def map_set_absent)

lemma reviews_returned_in_window:
  assumes "getReviews cfg env w = (w', Inr (Some res))"
  shows "\<forall>pr \<in> set (rr_reviews res). compare (rc_date cfg) (review_date (pr_review pr))"
  using assms
  by (auto simp: getReviews_def Let_def processReview_def
           split: if_splits sum.splits prod.splits option.splits)

lemma comments_merged_in_window:
  "\<forall>kc \<in> set (comments (fst (comments_engine cfg env s))).
      kc \<in> set (comments s) \<or> compare (cc_date cfg) (comment_date (snd kc))"
proof (rule comments_lift_engine [where I = "\<lambda>t. \<forall>kc \<in> set (comments t).
      kc \<in> set (comments s) \<or> compare (cc_date cfg) (comment_date (snd kc))"])
  fix p t t' fl
  assume I: "\<forall>kc \<in> set (comments t). kc \<in> set (comments s) \<or> compare (cc_date cfg) (comment_date (snd kc))"
    and st: "interceptGrapQL_item cfg p t = (t', fl)"
  show "\<forall>kc \<in> set (comments t'). kc \<in> set (comments s) \<or> compare (cc_date cfg) (comment_date (snd kc))"
  proof (cases "comments t' = comments t")
    case True
    then show ?thesis using I by simp
  next
    case False
    from comments_item_merge [OF st False]
    have acc: "compare (cc_date cfg) (created_time p)"
      and app: "comments t' = comments t @ [(node_id p, make_comment p)]"
      by (auto dest: counter_time_accepts)
    show ?thesis using I acc by (auto simp: app make_comment_def)
  qed
qed (auto simp: interceptGrapQL_count_def Let_def)


text \<open>
  Claim C5, as amended. In comment discovery a node is merged only after \<^verbatim>\<open>time()\<close> has
  accepted its date, and the counter is the one \<^verbatim>\<open>time()\<close> returned: every comment the
  engine adds to the accumulator lies in the date window. In post discovery a post is
  merged only if its date lies in the window; \<^verbatim>\<open>time()\<close> classifies a post that is not
  pinned, and \<^verbatim>\<open>date.compare\<close> tests a pinned one, leaving the counter as it is. In
  review discovery a review with a new, non-empty url is merged whatever its date; the
  window is applied by \<^verbatim>\<open>date.compare\<close> to the list the call returns, not to the
  accumulator.
\<close>

theorem date_classification:
  "(interceptGrapQL_item ccfg p cs = (cs', fl) \<and> comments cs' \<noteq> comments cs \<longrightarrow>
      counter_time (cc_date ccfg) (created_time p) (c_counter cs) = (True, c_counter cs')
      \<and> comments cs' = comments cs @ [(node_id p, make_comment p)])
   \<and> (\<forall>kc \<in> set (comments (fst (comments_engine ccfg cenv cs))).
        kc \<in> set (comments cs) \<or> compare (cc_date ccfg) (comment_date (snd kc)))
   \<and> (getPosts_item pcfg po ps = (ps', fl') \<and> urls ps' \<noteq> urls ps \<longrightarrow>
        compare (pc_date pcfg) (convertedDate po)
        \<and> (if isPinned po then p_counter ps' = p_counter ps
           else counter_time (pc_date pcfg) (convertedDate po) (p_counter ps) = (True, p_counter ps')))
   \<and> (review_url rv = Some u \<and> u \<noteq> [] \<and> \<not> map_has (reviews rs) u \<longrightarrow>
        reviews (fst (getReviewsFromPage_item rcfg rv rs)) = reviews rs @ [(u, rv)])
   \<and> (getReviews rcfg renv w = (w', Inr (Some res)) \<longrightarrow>
        (\<forall>pr \<in> set (rr_reviews res). compare (rc_date rcfg) (review_date (pr_review pr))))"
  using comments_item_merge [of ccfg p cs cs' fl] comments_merged_in_window [of ccfg cenv cs]
    posts_item_merge [of pcfg po ps ps' fl'] reviews_item_merge [of rv u rs rcfg]
    reviews_returned_in_window [of rcfg renv w w' res]
  by blast

text \<open>
  A review dated before the window, which \<^verbatim>\<open>time()\<close> rejects, is merged; a pinned post
  is merged while the counter stays as it was, so \<^verbatim>\<open>time()\<close> has not been called.
\<close>

theorem merged_unclassified_counterexample:
  "\<not> fst (counter_time (rc_date ex_reviews_cfg) (review_date ex_review2) counter_init)
   \<and> reviews (fst (getReviewsFromPage_item ex_reviews_cfg ex_review2 (reviews_init ex_session)))
       = [(''/r/2'', ex_review2)]
   \<and> urls (fst (getPosts_item ex_posts_cfg ex_pinned (posts_init ex_session))) = [''/page/posts/1'']
   \<and> p_counter (fst (getPosts_item ex_posts_cfg ex_pinned (posts_init ex_session))) = counter_init"
  by code_simp

text \<open>
  A comment and a post that \<^verbatim>\<open>time()\<close> accepts, a pinned post in the window, a review
  merged from outside the window, and the list \<^verbatim>\<open>getReviews\<close> returns.
\<close>

theorem date_classification_witness:
  "counter_time (cc_date ex_comments_cfg) (created_time ex_node) (c_counter ex_comments_ready)
     = (True, counter_init\<lparr>inRange := 1\<rparr>)
   \<and> compare (cc_date ex_comments_cfg) (comment_date (make_comment ex_node))
   \<and> compare (pc_date ex_posts_cfg) (convertedDate ex_pinned)
   \<and> counter_time (pc_date ex_posts_cfg) (convertedDate ex_post) counter_init
       = (True, counter_init\<lparr>inRange := 1\<rparr>)
   \<and> reviews (fst (getReviewsFromPage_item ex_reviews_cfg ex_review2 (reviews_init ex_session)))
       = [(''/r/2'', ex_review2)]
   \<and> compare (rc_date ex_reviews_cfg) (review_date ex_review1)"
proof -
  note t = date_classification [where ccfg = ex_comments_cfg and p = ex_node and cs = ex_comments_ready
      and cs' = "ex_comments_ready\<lparr>comments := [(''c1'', make_comment ex_node)],
          c_counter := counter_init\<lparr>inRange := 1\<rparr>, c_added := [make_comment ex_node]\<rparr>"
      and fl = Continue and pcfg = ex_posts_cfg and po = ex_pinned and ps = "posts_init ex_session"
      and ps' = "(posts_init ex_session)\<lparr>urls := [''/page/posts/1''], p_postpones := 1,
          p_queue := [\<lparr>rq_url = ''/page/posts/1'', rq_uniqueKey = ''post-1''\<rparr>]\<rparr>"
      and fl' = Continue and rv = ex_review2 and u = "''/r/2''" and rs = "reviews_init ex_session"
      and rcfg = ex_reviews_cfg and renv = ex_reviews_env and w = ex_resumed
      and w' = "ex_resumed\<lparr>userData_reviews := Some [(''/r/1'', ex_review1), (''/r/2'', ex_review2)]\<rparr>"
      and res = "\<lparr>rr_average = None,
                   rr_reviews = [\<lparr>pr_review = ex_review1, pr_url = Some ''/r/1'', pr_canonical = None\<rparr>],
                   rr_count = None\<rparr>"]
  note t' = date_classification [where ccfg = ex_comments_cfg and cenv = ex_comments_env
      and cs = "comments_init ex_comments_cfg ex_session" and pcfg = ex_posts_cfg and po = ex_post
      and ps = "posts_init ex_session"
      and ps' = "(posts_init ex_session)\<lparr>urls := [''/page/posts/1''], p_postpones := 1,
          p_counter := counter_init\<lparr>inRange := 1\<rparr>,
          p_queue := [\<lparr>rq_url = ''/page/posts/1'', rq_uniqueKey = ''post-1''\<rparr>]\<rparr>"
      and fl' = Continue]
  have 1: "counter_time (cc_date ex_comments_cfg) (created_time ex_node) (c_counter ex_comments_ready)
     = (True, counter_init\<lparr>inRange := 1\<rparr>)"
    using t [THEN conjunct1] ex_merges(1,2) by simp
  have 2: "compare (pc_date ex_posts_cfg) (convertedDate ex_pinned)"
    using t [THEN conjunct2, THEN conjunct2, THEN conjunct1] ex_merges(3,4) by simp
  have 3: "reviews (fst (getReviewsFromPage_item ex_reviews_cfg ex_review2 (reviews_init ex_session)))
       = [(''/r/2'', ex_review2)]"
    using t [THEN conjunct2, THEN conjunct2, THEN conjunct2, THEN conjunct1] ex_merges(6,7)
    by (simp add: map_has_def)
  have 4: "compare (rc_date ex_reviews_cfg) (review_date ex_review1)"
    using t [THEN conjunct2, THEN conjunct2, THEN conjunct2, THEN conjunct2] ex_merges(8) by simp
  have 5: "compare (cc_date ex_comments_cfg) (comment_date (make_comment ex_node))"
    using t' [THEN conjunct2, THEN conjunct1] ex_comments_engine(1) ex_merges_more(4) by simp
  have 6: "counter_time (pc_date ex_posts_cfg) (convertedDate ex_post) counter_init
       = (True, counter_init\<lparr>inRange := 1\<rparr>)"
    using t' [THEN conjunct2, THEN conjunct2, THEN conjunct1] ex_merges_more(1,2,3) ex_merges(4)
    by simp
  show ?thesis using 1 2 3 4 5 6 by simp
qed

section \<open>The quota\<close>

subsection \<open>The quota in the post and comment flows\<close>

lemma set_add_length: "length (set_add x xs) \<le> Suc (length xs)"
  by (simp add: set_add_def)

lemma new_Set_length_aux: "length (foldl (\<lambda>acc x. set_add x acc) acc xs) \<le> length acc + length xs"
proof (induction xs arbitrary: acc)
  case Nil
  then show ?case by simp
next
  case (Cons x xs)
  have "length (foldl (\<lambda>acc x. set_add x acc) (set_add x acc) xs) \<le> length (set_add x acc) + length xs"
    by (rule Cons.IH)
  also have "\<dots> \<le> Suc (length acc) + length xs"
    using set_add_length [of x acc] by simp
  finally show ?case by simp
qed

lemma new_Set_length: "length (new_Set xs) \<le> length xs"
  using new_Set_length_aux [of "[]" xs] by (simp add: new_Set_def)

lemma map_set_length: "length (map_set k v m) \<le> Suc (length m)"
  by (induction m) auto

lemma new_Map_length_aux:
  "length (foldl (\<lambda>acc (k, v). map_set k v acc) acc kvs) \<le> length acc + length kvs"
proof (induction kvs arbitrary: acc)
  case Nil
  then show ?case by simp
next
  case (Cons kv kvs)
  obtain k v where kv: "kv = (k, v)" by (cases kv)
  have "length (foldl (\<lambda>acc (k, v). map_set k v acc) (map_set k v acc) kvs)
          \<le> length (map_set k v acc) + length kvs"
    by (rule Cons.IH)
  also have "\<dots> \<le> Suc (length acc) + length kvs"
    using map_set_length [of k v acc] by simp
  finally show ?case by (simp add: kv)
qed

lemma new_Map_length: "length (new_Map kvs) \<le> length kvs"
  using new_Map_length_aux [of "[]" kvs] by (simp add: new_Map_def)

lemma posts_item_quota:
  "length (urls s) \<le> pc_max cfg \<Longrightarrow> getPosts_item cfg p s = (s', fl) \<Longrightarrow> length (urls s') \<le> pc_max cfg"
  by (auto simp: getPosts_item_def Let_def split: if_splits prod.splits option.splits)

lemma posts_quota:
  assumes "length (case userData_urls w of None \<Rightarrow> [] | Some xs \<Rightarrow> xs) \<le> pc_max cfg"
  shows "length (urls (fst (posts_engine cfg env (posts_init w)))) \<le> pc_max cfg"
proof (rule posts_lift_engine [where I = "\<lambda>s. length (urls s) \<le> pc_max cfg"])
  show "length (urls (posts_init w)) \<le> pc_max cfg"
    using assms new_Set_length [of "case userData_urls w of None \<Rightarrow> [] | Some xs \<Rightarrow> xs"]
    by (simp add: posts_init_def)
qed (auto simp: posts_item_quota)

lemma comments_item_quota:
  assumes "length (comments s) \<le> cc_max cfg \<and> c_max s \<le> cc_max cfg"
    and "interceptGrapQL_item cfg p s = (s', fl)"
  shows "length (comments s') \<le> cc_max cfg \<and> c_max s' \<le> cc_max cfg"
  using assms map_set_length [of "node_id p" "make_comment p" "comments s"]
  by (auto simp: interceptGrapQL_item_def Let_def split: if_splits prod.splits option.splits)

lemma comments_quota:
  assumes "length (case userData_comments w of None \<Rightarrow> [] | Some kvs \<Rightarrow> kvs) \<le> cc_max cfg"
  shows "length (comments (fst (comments_engine cfg env (comments_init cfg w)))) \<le> cc_max cfg"
proof -
  let ?I = "\<lambda>s. length (comments s) \<le> cc_max cfg \<and> c_max s \<le> cc_max cfg"
  have "?I (fst (comments_engine cfg env (comments_init cfg w)))"
  proof (rule comments_lift_engine [where I = ?I])
    show "?I (comments_init cfg w)"
      using assms new_Map_length [of "case userData_comments w of None \<Rightarrow> [] | Some kvs \<Rightarrow> kvs"]
      by (simp add: comments_init_def)
    show "?I s'" if "?I s" "interceptGrapQL_item cfg p s = (s', fl)" for p s s' fl
      using comments_item_quota [OF that] .
  qed (auto simp: interceptGrapQL_count_def Let_def)
  then show ?thesis by simp
qed

subsection \<open>The quota in the review flow\<close>

text \<open>
  Claim C7 at a failing input. \<^verbatim>\<open>getReviews\<close> is called with \<^verbatim>\<open>max\<close> 1 on a retry whose
  snapshot holds one review, so at most \<^verbatim>\<open>max\<close> items, while the page shows a review
  with another url. \<^verbatim>\<open>getReviewsFromPage\<close> stores the review before it compares the
  size with \<^verbatim>\<open>max\<close> (lines 473 to 481): the accumulator and the persisted snapshot
  hold two reviews. The post and the comment flows compare first
  (\<open>posts_quota\<close>, \<open>comments_quota\<close>).
\<close>

theorem reviews_exceed_max:
  "userData_reviews ex_resumed = Some [(''/r/1'', ex_review1)]
   \<and> rc_max ex_reviews_cfg = 1
   \<and> userData_reviews (fst (getReviews ex_reviews_cfg ex_reviews_env ex_resumed))
       = Some [(''/r/1'', ex_review1), (''/r/2'', ex_review2)]"
  by code_simp
section \<open>The response subscription\<close>

lemma remove1_fresh: "h \<notin> set xs \<Longrightarrow> remove1 h (xs @ [h]) = xs"
  by (induction xs) auto

lemma posts_listeners:
  assumes "PostsObserver \<notin> set (listeners w)"
  shows "listeners (fst (getPostUrls cfg env w)) = listeners w"
  using assms
  by (auto simp: getPostUrls_def Let_def posts_finally_def page_on_def page_off_def remove1_fresh
           split: prod.splits option.splits)

lemma comments_listeners:
  assumes "CommentsObserver \<notin> set (listeners w)"
  shows "listeners (fst (getPostComments cfg env w)) = listeners w"
  using assms
  by (auto simp: getPostComments_def Let_def comments_finally_def page_on_def page_off_def remove1_fresh
           split: prod.splits option.splits)

lemma reviews_listeners:
  assumes "ReviewsObserver \<notin> set (listeners w)" "snd (reviews_first cfg env w) = None"
  shows "listeners (fst (getReviews cfg env w)) = listeners w"
  using assms
  by (auto simp: getReviews_def Let_def reviews_finally_def page_on_def page_off_def remove1_fresh
           split: prod.splits option.splits sum.splits)

text \<open>
  Claim C2 at a failing input. The first selection of reviews throws (line 511, after
  the subscription of line 509 and before the \<^verbatim>\<open>try\<close> of line 513): the exception leaves
  \<^verbatim>\<open>getReviews\<close> with the observer still subscribed. \<^verbatim>\<open>getPostUrls\<close> and
  \<^verbatim>\<open>getPostComments\<close> enter their \<^verbatim>\<open>try\<close> right after subscribing and always
  unsubscribe (\<open>posts_listeners\<close>, \<open>comments_listeners\<close>), as does \<^verbatim>\<open>getReviews\<close> once
  its first selection has returned (\<open>reviews_listeners\<close>).
\<close>

theorem reviews_listener_leak:
  "listeners ex_session = []
   \<and> getReviews ex_reviews_cfg ex_reviews_timeout ex_session
       = (ex_session\<lparr>listeners := [ReviewsObserver]\<rparr>, Inl TimeoutError)"
  by code_simp
section \<open>The redirect to the login page\<close>

lemma posts_redirect:
  "snd (posts_status res s) = Some e \<longleftrightarrow>
     e = InfoError ''Redirected to login'' ''getPostUrls'' \<and> res_status res = 302
     \<and> (str_includes (res_url res) ''login'' \<or> str_includes (res_url res) ''next='')"
  by (auto simp: posts_status_def)

lemma comments_redirect:
  "snd (comments_status res s) = Some e \<longleftrightarrow>
     e = InfoError ''Redirected to login'' ''getPostComments'' \<and> res_status res = 302
     \<and> (str_includes (res_url res) ''next='' \<or> str_includes (res_url res) ''/login'')"
  by (auto simp: comments_status_def)

lemma reviews_redirect:
  "snd (reviews_try res s) = Some e \<longleftrightarrow>
     e = InfoError ''Redirected to login'' ''getReviews'' \<and> res_status res = 302"
  by (auto simp: reviews_try_def)

text \<open>
  Claim C4 at a failing input. The review observer receives, once ready, a response
  with status 302 whose url contains neither \<^verbatim>\<open>login\<close> nor \<^verbatim>\<open>next=\<close>: it rejects the gate
  with \<^verbatim>\<open>Redirected to login\<close> (line 496 tests the status only). The post and the comment
  observers throw that error exactly for a 302 whose url contains one of their markers
  (\<open>posts_redirect\<close>, \<open>comments_redirect\<close>).
\<close>

theorem reviews_redirect_fatal:
  "\<not> str_includes (res_url ex_redirect) ''login'' \<and> \<not> str_includes (res_url ex_redirect) ''next=''
   \<and> r_finish (reviews_interceptAjax ex_redirect ((reviews_init ex_session)\<lparr>r_isReady := True\<rparr>))
       = Rejected (InfoError ''Redirected to login'' ''getReviews'')"
  by (simp add: reviews_interceptAjax_def reviews_try_def ex_redirect_def reviews_init_def
        gate_reject_def)

end
